theory Spec2Isabelle
  imports Main
begin

section \<open>Data model (types.ts, src/lib/verse-selector.ts)\<close>

text \<open>
  \<^verbatim>\<open>VerseReference.source\<close> is the union type
  \<^verbatim>\<open>'Bhagavad Gita' | 'Srimad Bhagavatam'\<close>; chapter and verse are JavaScript
  numbers, modelled as mathematical integers (fractions and NaN are outside the model).
  The optional \<^verbatim>\<open>text\<close> field is never read by the selector and is left out.
\<close>

datatype source = BhagavadGita | SrimadBhagavatam

record VerseReference =
  source :: source
  "chapter" :: int
  verse :: int

text \<open>
  Of a \<^verbatim>\<open>Post\<close> the selector reads three fields only: the scripture source, the
  textual verse reference and the creation date (milliseconds since the epoch).
\<close>

record Post =
  scriptureSource :: source
  verseReference :: string
  createdAt :: int

section \<open>Scripture metadata\<close>

text \<open>
  The two object literals, as association lists from key to value. Reading a property
  \<^verbatim>\<open>obj[k]\<close> is \<open>map_of obj k\<close>; the value \<open>None\<close> is JavaScript's
  \<^verbatim>\<open>undefined\<close>, which a read of an absent key evaluates to (no exception).
\<close>

definition BHAGAVAD_GITA_STRUCTURE :: "(int \<times> int) list" where
  "BHAGAVAD_GITA_STRUCTURE =
    [(1, 46), (2, 72), (3, 43), (4, 42), (5, 29), (6, 47), (7, 30), (8, 28), (9, 34),
     (10, 42), (11, 55), (12, 20), (13, 35), (14, 27), (15, 20), (16, 24), (17, 28),
     (18, 78)]"

definition SRIMAD_BHAGAVATAM_STRUCTURE :: "(int \<times> (int \<times> int) list) list" where
  "SRIMAD_BHAGAVATAM_STRUCTURE =
    [(1,
      [(1, 23), (2, 34), (3, 44), (4, 33), (5, 40), (6, 38), (7, 58), (8, 52), (9, 49),
       (10, 70), (11, 39), (12, 36), (13, 60), (14, 43), (15, 51), (16, 36), (17, 46),
       (18, 50), (19, 43)])]"

text \<open>
  \<^verbatim>\<open>a < b\<close> where \<^verbatim>\<open>b\<close> may be \<^verbatim>\<open>undefined\<close>: the comparison converts
  \<^verbatim>\<open>undefined\<close> to NaN and is false.
\<close>

fun js_less :: "int \<Rightarrow> int option \<Rightarrow> bool" where
  "js_less a None = False"
| "js_less a (Some b) = (a < b)"

text \<open>
  \<^verbatim>\<open>SRIMAD_BHAGAVATAM_STRUCTURE[canto][chapter]\<close>. The canto is the constant 1 at
  the only call site, a key of the literal, so the first read never yields
  \<^verbatim>\<open>undefined\<close>.
\<close>

definition bhagavatamVerses :: "int \<Rightarrow> int \<Rightarrow> int option" where
  "bhagavatamVerses canto ch =
    (case map_of SRIMAD_BHAGAVATAM_STRUCTURE canto of
       None \<Rightarrow> None
     | Some chapters \<Rightarrow> map_of chapters ch)"

section \<open>The sequencer\<close>

definition getNextSequentialVerse :: "VerseReference \<Rightarrow> VerseReference" where
  "getNextSequentialVerse current =
    (if source current = BhagavadGita then
       (let maxVersesInChapter = map_of BHAGAVAD_GITA_STRUCTURE (chapter current) in
        if js_less (verse current) maxVersesInChapter then
          \<lparr>source = BhagavadGita, chapter = chapter current, verse = verse current + 1\<rparr>
        else if chapter current < 18 then
          \<lparr>source = BhagavadGita, chapter = chapter current + 1, verse = 1\<rparr>
        else
          \<lparr>source = SrimadBhagavatam, chapter = 1, verse = 1\<rparr>)
     else
       (let canto = 1;
            maxVersesInChapter = bhagavatamVerses canto (chapter current) in
        if js_less (verse current) maxVersesInChapter then
          \<lparr>source = SrimadBhagavatam, chapter = chapter current, verse = verse current + 1\<rparr>
        else if chapter current < 19 then
          \<lparr>source = SrimadBhagavatam, chapter = chapter current + 1, verse = 1\<rparr>
        else
          \<lparr>source = BhagavadGita, chapter = 1, verse = 1\<rparr>))"

section \<open>The scripture index as the sequencer reads it\<close>

text \<open>
  The source has no separate index functions: the chapter counts are the literals 18 and
  19 of \<^verbatim>\<open>getNextSequentialVerse\<close>, the verse count of a chapter is the property
  read it performs in each branch.
\<close>

definition chapterCount :: "source \<Rightarrow> int" where
  "chapterCount s = (case s of BhagavadGita \<Rightarrow> 18 | SrimadBhagavatam \<Rightarrow> 19)"

definition versesInChapter :: "source \<Rightarrow> int \<Rightarrow> int option" where
  "versesInChapter s ch =
    (case s of
       BhagavadGita \<Rightarrow> map_of BHAGAVAD_GITA_STRUCTURE ch
     | SrimadBhagavatam \<Rightarrow> bhagavatamVerses 1 ch)"

definition otherSource :: "source \<Rightarrow> source" where
  "otherSource s = (case s of BhagavadGita \<Rightarrow> SrimadBhagavatam | SrimadBhagavatam \<Rightarrow> BhagavadGita)"

text \<open>A reference of the canon: a chapter of its scripture and a verse of that chapter.\<close>

definition valid :: "VerseReference \<Rightarrow> bool" where
  "valid r =
    (1 \<le> chapter r \<and> chapter r \<le> chapterCount (source r) \<and>
     (case versesInChapter (source r) (chapter r) of
        None \<Rightarrow> False
      | Some n \<Rightarrow> 1 \<le> verse r \<and> verse r \<le> n))"

section \<open>Positions in the canonical order\<close>

text \<open>
  The chapter table of the only canto the sequencer handles, and the number of verses of
  both scriptures together.
\<close>

definition bhagavatamChapters :: "(int \<times> int) list" where
  "bhagavatamChapters =
    (case map_of SRIMAD_BHAGAVATAM_STRUCTURE 1 of None \<Rightarrow> [] | Some chapters \<Rightarrow> chapters)"

definition totalVerses :: int where
  "totalVerses =
    sum_list (map snd BHAGAVAD_GITA_STRUCTURE) + sum_list (map snd bhagavatamChapters)"

text \<open>
  The position of a reference counts the verses before it: those of the earlier chapters
  of its scripture, and all of the Bhagavad Gita for a reference of the Srimad
  Bhagavatam. \<open>atPosition\<close> walks the tables the other way. Both are proof devices; the
  source has neither.
\<close>

fun versesBefore :: "(int \<times> int) list \<Rightarrow> int \<Rightarrow> int" where
  "versesBefore [] ch = 0"
| "versesBefore ((k, n) # rest) ch = (if k < ch then n + versesBefore rest ch else 0)"

definition position :: "VerseReference \<Rightarrow> int" where
  "position r =
    (case source r of
       BhagavadGita \<Rightarrow> versesBefore BHAGAVAD_GITA_STRUCTURE (chapter r) + verse r - 1
     | SrimadBhagavatam \<Rightarrow>
         sum_list (map snd BHAGAVAD_GITA_STRUCTURE)
           + versesBefore bhagavatamChapters (chapter r) + verse r - 1)"

fun verseAt :: "source \<Rightarrow> (int \<times> int) list \<Rightarrow> int \<Rightarrow> VerseReference option" where
  "verseAt s [] i = None"
| "verseAt s ((k, n) # rest) i =
    (if i < n then Some \<lparr>source = s, chapter = k, verse = i + 1\<rparr>
     else verseAt s rest (i - n))"

definition atPosition :: "int \<Rightarrow> VerseReference option" where
  "atPosition i =
    (if i < sum_list (map snd BHAGAVAD_GITA_STRUCTURE)
     then verseAt BhagavadGita BHAGAVAD_GITA_STRUCTURE i
     else verseAt SrimadBhagavatam bhagavatamChapters
            (i - sum_list (map snd BHAGAVAD_GITA_STRUCTURE)))"

text \<open>The \<open>k\<close>-th reference after \<open>lastVerse\<close> in the order of the sequencer.\<close>

definition candidateAfter :: "VerseReference \<Rightarrow> nat \<Rightarrow> VerseReference" where
  "candidateAfter lastVerse k = (getNextSequentialVerse ^^ k) lastVerse"

section \<open>Numbers in template strings\<close>

text \<open>
  \<^verbatim>\<open>`${verse.chapter}.${verse.verse}`\<close> converts each number to its decimal text: the
  digits, most significant first, after a minus sign for a negative number. (The model
  covers integers that JavaScript prints without an exponent.)
\<close>

fun digits :: "nat \<Rightarrow> string" where
  "digits n =
    (if n < 10 then [char_of (48 + n)] else digits (n div 10) @ [char_of (48 + n mod 10)])"

definition numberToString :: "int \<Rightarrow> string" where
  "numberToString i = (if i < 0 then CHR ''-'' # digits (nat (- i)) else digits (nat i))"

section \<open>The history collaborator\<close>

text \<open>
  A value thrown in the Supabase client module: a \<^verbatim>\<open>TypeError\<close> or an error of
  another class, with its message.
\<close>

datatype exception = TypeError string | OtherError string

text \<open>\<^verbatim>\<open>message.includes(part)\<close>.\<close>

fun startsWith :: "string \<Rightarrow> string \<Rightarrow> bool" where
  "startsWith s [] = True"
| "startsWith [] (c # part) = False"
| "startsWith (x # s) (c # part) = (x = c \<and> startsWith s part)"

fun messageIncludes :: "string \<Rightarrow> string \<Rightarrow> bool" where
  "messageIncludes [] part = (part = [])"
| "messageIncludes (x # s) part = (startsWith (x # s) part \<or> messageIncludes s part)"

text \<open>
  What the query of \<^verbatim>\<open>getLastPublishedVerse\<close> for the newest post comes to. Either
  something is thrown inside the \<^verbatim>\<open>try\<close> block before the answer is there
  (\<^verbatim>\<open>getSupabaseClient\<close> throws when the environment variables are missing, the
  awaited query when the request fails), or the query answers \<^verbatim>\<open>{ data, error }\<close>,
  each of them possibly \<^verbatim>\<open>null\<close>.

  Of the row, the column \<^verbatim>\<open>verse_reference\<close> is represented by the numbers
  \<^verbatim>\<open>data.verse_reference.split('.').map(Number)\<close> yields: \<^verbatim>\<open>split\<close> never
  yields an empty array, so the row carries the first number and the list of the others
  (a text with a part that is not an integer is outside the model, as NaN is outside
  \<open>VerseReference\<close>).
\<close>

record postgrestError =
  code :: string
  message :: string

record lastPostRow =
  scripture_source :: source
  firstPart :: int
  otherParts :: "int list"

datatype queryOutcome = Threw exception | Answered "lastPostRow option" "postgrestError option"

text \<open>The \<^verbatim>\<open>try\<close> block of \<^verbatim>\<open>getLastPublishedVerse\<close>.\<close>

definition readLastPublishedVerse :: "queryOutcome \<Rightarrow> exception + VerseReference option" where
  "readLastPublishedVerse outcome =
    (case outcome of
       Threw x \<Rightarrow> Inl x
     | Answered data err \<Rightarrow>
         (case err of
            Some e \<Rightarrow>
              if code e = ''PGRST116'' then Inr None
              else Inl (OtherError (''Failed to get last published verse: '' @ message e))
          | None \<Rightarrow>
              (case data of
                 None \<Rightarrow> Inr None
               | Some row \<Rightarrow>
                   Inr (Some \<lparr>source = scripture_source row,
                              chapter = firstPart row,
                              verse = last (firstPart row # otherParts row)\<rparr>))))"

text \<open>
  The condition of the \<^verbatim>\<open>catch\<close> block:
  \<^verbatim>\<open>error instanceof TypeError && error.message.includes('fetch failed')\<close>.
\<close>

definition isFetchFailure :: "exception \<Rightarrow> bool" where
  "isFetchFailure x =
    (case x of
       TypeError m \<Rightarrow> messageIncludes m ''fetch failed''
     | OtherError m \<Rightarrow> False)"

text \<open>
  \<^verbatim>\<open>getLastPublishedVerse\<close>: the \<^verbatim>\<open>try\<close> block under its \<^verbatim>\<open>catch\<close>, which
  answers \<^verbatim>\<open>null\<close> when that condition holds (\<^verbatim>\<open>return null to start from
  beginning\<close>) and throws every other value again.
\<close>

definition getLastPublishedVerse :: "queryOutcome \<Rightarrow> exception + VerseReference option" where
  "getLastPublishedVerse outcome =
    (case readLastPublishedVerse outcome of
       Inl x \<Rightarrow> if isFetchFailure x then Inr None else Inl x
     | Inr answer \<Rightarrow> Inr answer)"

text \<open>
  The local time zone of the process, as the \<^verbatim>\<open>Date\<close> methods use it: the offset of
  local time from UTC at an instant, and the offset that applies to a local time (both in
  milliseconds).
\<close>

record zone =
  offsetAtUTC :: "int \<Rightarrow> int"
  offsetAtLocal :: "int \<Rightarrow> int"

text \<open>
  A \<open>world\<close> fixes what the selector meets outside itself during one invocation of
  \<^verbatim>\<open>getNextVerse\<close>:
  \<^item> \<open>lastPostQuery\<close> is what the query of \<^verbatim>\<open>getLastPublishedVerse\<close> comes to;
  \<^item> \<open>allPosts w k\<close> is the outcome of the call of \<^verbatim>\<open>getAllPosts()\<close> made after
    \<open>k\<close> earlier ones: the value it throws or the posts it resolves to
    (\<^verbatim>\<open>getAllPosts\<close> has no handler of its own);
  \<^item> \<open>currentTime w k\<close> is what \<^verbatim>\<open>new Date()\<close> reads after that call, in
    milliseconds since the epoch;
  \<^item> \<open>timeZone\<close> is the local time zone.
\<close>

record world =
  lastPostQuery :: queryOutcome
  allPosts :: "nat \<Rightarrow> exception + Post list"
  currentTime :: "nat \<Rightarrow> int"
  timeZone :: zone

text \<open>\<^verbatim>\<open>await getLastPublishedVerse()\<close>, as the selector calls it.\<close>

definition lastPublishedVerse :: "world \<Rightarrow> exception + VerseReference option" where
  "lastPublishedVerse w = getLastPublishedVerse (lastPostQuery w)"

text \<open>
  Errors of \<^verbatim>\<open>getNextVerse\<close>: its own (\<^verbatim>\<open>'Unable to find a verse that has not been
  published in the last 365 days. ...'\<close>) and a value thrown by a collaborator, which
  passes through no handler of the selector.
\<close>

datatype error = UnableToFindVerse | Upstream exception

section \<open>The recency filter\<close>

definition msPerDay :: int where
  "msPerDay = 24 * 60 * 60 * 1000"

text \<open>The instant \<open>days\<close> times 24 hours before \<open>now\<close>.\<close>

definition daysBefore :: "int \<Rightarrow> int \<Rightarrow> int" where
  "daysBefore now days = now - days * msPerDay"

text \<open>
  \<^verbatim>\<open>const cutoffDate = new Date(); cutoffDate.setDate(cutoffDate.getDate() - days)\<close>.
  \<^verbatim>\<open>setDate\<close> works on the fields of local time: it takes the local time of the
  instant, replaces the day of the month (a day number below 1 counts back into the earlier
  months, so the local date moves back by \<open>days\<close> calendar days and the time of day
  stays), and converts that local time back to an instant.
\<close>

definition cutoffDateOf :: "zone \<Rightarrow> int \<Rightarrow> int \<Rightarrow> int" where
  "cutoffDateOf z now days =
    (let localNow = now + offsetAtUTC z now;
         localCutoff = localNow - days * msPerDay
     in localCutoff - offsetAtLocal z localCutoff)"

text \<open>The callback of \<^verbatim>\<open>allPosts.some\<close>.\<close>

definition postMatches :: "VerseReference \<Rightarrow> int \<Rightarrow> Post \<Rightarrow> bool" where
  "postMatches v cutoffDate post =
    (let verseString = numberToString (chapter v) @ ''.'' @ numberToString (verse v);
         matchesVerse = (verseReference post = verseString);
         matchesSource = (scriptureSource post = source v);
         isRecent = (createdAt post \<ge> cutoffDate)
     in matchesVerse \<and> matchesSource \<and> isRecent)"

text \<open>
  \<open>hasVerseBeenPublishedRecently w k v days\<close> is the call made after \<open>k\<close> earlier ones:
  it awaits \<^verbatim>\<open>getAllPosts()\<close> itself, then reads the clock.
\<close>

definition hasVerseBeenPublishedRecently ::
    "world \<Rightarrow> nat \<Rightarrow> VerseReference \<Rightarrow> int \<Rightarrow> error + bool" where
  "hasVerseBeenPublishedRecently w k v days =
    (case allPosts w k of
       Inl e \<Rightarrow> Inl (Upstream e)
     | Inr posts \<Rightarrow>
         (let cutoffDate = cutoffDateOf (timeZone w) (currentTime w k) days
          in Inr (list_ex (postMatches v cutoffDate) posts)))"

section \<open>The selector\<close>

definition maxAttempts :: nat where
  "maxAttempts = 1000"

text \<open>
  The \<^verbatim>\<open>while\<close> loop of \<^verbatim>\<open>getNextVerse\<close>, entered at its condition with the
  current candidate, the attempt counter and the number of history loads made so far. It
  returns the result and the number of loads made when it ends.
\<close>

function recencyLoop ::
    "world \<Rightarrow> VerseReference \<Rightarrow> nat \<Rightarrow> nat \<Rightarrow> (error + VerseReference) \<times> nat" where
  "recencyLoop w nextVerse attempts loads =
    (case hasVerseBeenPublishedRecently w loads nextVerse 365 of
       Inl e \<Rightarrow> (Inl e, loads + 1)
     | Inr recent \<Rightarrow>
         if recent then
           (if attempts + 1 \<ge> maxAttempts then (Inl UnableToFindVerse, loads + 1)
            else recencyLoop w (getNextSequentialVerse nextVerse) (attempts + 1) (loads + 1))
         else (Inr nextVerse, loads + 1))"
  by pat_completeness auto
termination
  by (relation "measure (\<lambda>(w, nextVerse, attempts, loads). maxAttempts - attempts)") auto

text \<open>
  \<^verbatim>\<open>getNextVerse\<close>: the result, and the number of reads from the collaborator (the
  read of the last published verse and the history loads).
\<close>

definition getNextVerse :: "world \<Rightarrow> (error + VerseReference) \<times> nat" where
  "getNextVerse w =
    (case lastPublishedVerse w of
       Inl e \<Rightarrow> (Inl (Upstream e), 1)
     | Inr None \<Rightarrow> (Inr \<lparr>source = BhagavadGita, chapter = 1, verse = 1\<rparr>, 1)
     | Inr (Some lastVerse) \<Rightarrow>
         (case recencyLoop w (getNextSequentialVerse lastVerse) 0 0 of
            (result, loads) \<Rightarrow> (result, 1 + loads)))"

section \<open>A history that does not change during an invocation\<close>

text \<open>
  The answer of the query for the newest post when the last published verse is
  \<open>lastVerse\<close>: no row (the code PGRST116 of an empty result), or the row of a post
  stored with the two-part reference text.
\<close>

definition storedLast :: "VerseReference option \<Rightarrow> queryOutcome" where
  "storedLast lastVerse =
    (case lastVerse of
       None \<Rightarrow>
         Answered None (Some \<lparr>code = ''PGRST116'', message = ''The result contains 0 rows''\<rparr>)
     | Some v \<Rightarrow>
         Answered
           (Some \<lparr>scripture_source = source v, firstPart = chapter v, otherParts = [verse v]\<rparr>)
           None)"

text \<open>
  The collaborator answers every call with the same reference, the same posts and the same
  clock reading: no read fails and nothing is published while the selector runs.
\<close>

definition zonedWorld :: "zone \<Rightarrow> VerseReference option \<Rightarrow> Post list \<Rightarrow> int \<Rightarrow> world" where
  "zonedWorld z lastVerse posts now =
    \<lparr>lastPostQuery = storedLast lastVerse, allPosts = (\<lambda>k. Inr posts),
     currentTime = (\<lambda>k. now), timeZone = z\<rparr>"

text \<open>The same with UTC as the local time zone: there every day has 24 hours.\<close>

definition utc :: zone where
  "utc = \<lparr>offsetAtUTC = (\<lambda>t. 0), offsetAtLocal = (\<lambda>t. 0)\<rparr>"

definition constantWorld :: "VerseReference option \<Rightarrow> Post list \<Rightarrow> int \<Rightarrow> world" where
  "constantWorld lastVerse posts now = zonedWorld utc lastVerse posts now"

text \<open>The verdict of the recency check of the selector (365 days) on such a history.\<close>

definition recentAt :: "zone \<Rightarrow> Post list \<Rightarrow> int \<Rightarrow> VerseReference \<Rightarrow> bool" where
  "recentAt z posts now v =
    (hasVerseBeenPublishedRecently (zonedWorld z None posts now) 0 v 365 = Inr True)"

definition recentIn :: "Post list \<Rightarrow> int \<Rightarrow> VerseReference \<Rightarrow> bool" where
  "recentIn posts now v =
    (hasVerseBeenPublishedRecently (constantWorld None posts now) 0 v 365 = Inr True)"

text \<open>
  The post the publishing route stores for a selected verse: its source, and
  \<^verbatim>\<open>`${verse.chapter}.${verse.verse}`\<close> as the reference text.
\<close>

definition publishedPost :: "VerseReference \<Rightarrow> int \<Rightarrow> Post" where
  "publishedPost v t =
    \<lparr>scriptureSource = source v,
     verseReference = numberToString (chapter v) @ ''.'' @ numberToString (verse v),
     createdAt = t\<rparr>"

section \<open>The specification's wording\<close>

text \<open>
  Following the spec's words (section 4.4, Guarantee): the earliest ring successor of the
  last published reference that has not been used in the trailing window. One turn of the
  ring is searched.
\<close>

definition spec_earliestEligible :: "Post list \<Rightarrow> int \<Rightarrow> VerseReference \<Rightarrow> VerseReference option" where
  "spec_earliestEligible posts now lastVerse =
    find (\<lambda>c. \<not> recentIn posts now c)
      (map (candidateAfter lastVerse) [1..<Suc (nat totalVerses)])"

text \<open>
  Following the spec's words (sections 4.3 and 6): the reference text of a record is
  dot-separated integers; the first is the chapter, the last is the verse, the middle ones
  are ignored; a record counts for a candidate when source, chapter and verse agree and the
  timestamp is not older than the cutoff.
\<close>

fun splitOn :: "char \<Rightarrow> string \<Rightarrow> string list" where
  "splitOn c [] = [[]]"
| "splitOn c (x # xs) =
    (if x = c then [] # splitOn c xs
     else (case splitOn c xs of [] \<Rightarrow> [[x]] | p # ps \<Rightarrow> (x # p) # ps))"

definition digitValue :: "char \<Rightarrow> nat option" where
  "digitValue c =
    (if 48 \<le> (of_char c :: nat) \<and> (of_char c :: nat) \<le> 57 then Some (of_char c - 48)
     else None)"

fun digitsValue :: "string \<Rightarrow> nat \<Rightarrow> nat option" where
  "digitsValue [] acc = Some acc"
| "digitsValue (c # cs) acc =
    (case digitValue c of None \<Rightarrow> None | Some d \<Rightarrow> digitsValue cs (10 * acc + d))"

definition parseInteger :: "string \<Rightarrow> int option" where
  "parseInteger s =
    (case s of
       [] \<Rightarrow> None
     | c # cs \<Rightarrow>
         if c = CHR ''-'' then
           (if cs = [] then None else map_option (\<lambda>n. - int n) (digitsValue cs 0))
         else map_option int (digitsValue s 0))"

definition spec_parsedReference :: "string \<Rightarrow> (int \<times> int) option" where
  "spec_parsedReference ref =
    (case splitOn CHR ''.'' ref of
       [] \<Rightarrow> None
     | p # ps \<Rightarrow>
         (case (parseInteger p, parseInteger (last (p # ps))) of
            (Some c, Some v) \<Rightarrow> Some (c, v)
          | _ \<Rightarrow> None))"

definition spec_recordCounts :: "VerseReference \<Rightarrow> int \<Rightarrow> Post \<Rightarrow> bool" where
  "spec_recordCounts v cutoffDate post =
    (scriptureSource post = source v
     \<and> spec_parsedReference (verseReference post) = Some (chapter v, verse v)
     \<and> createdAt post \<ge> cutoffDate)"

section \<open>Concrete inputs\<close>

definition gita_1_1 :: VerseReference where
  "gita_1_1 = \<lparr>source = BhagavadGita, chapter = 1, verse = 1\<rparr>"

definition gita_2_13 :: VerseReference where
  "gita_2_13 = \<lparr>source = BhagavadGita, chapter = 2, verse = 13\<rparr>"

definition gita_2_14_at :: "int \<Rightarrow> Post" where
  "gita_2_14_at t = \<lparr>scriptureSource = BhagavadGita, verseReference = ''2.14'', createdAt = t\<rparr>"

text \<open>
  The test \<^verbatim>\<open>should skip verse published within 365 days\<close>: the last verse is 2.13
  and 2.14 was published 100 days ago.
\<close>

definition skipPosts :: "Post list" where
  "skipPosts = [gita_2_14_at (daysBefore 0 100)]"

definition skipWorld :: world where
  "skipWorld = constantWorld (Some gita_2_13) skipPosts 0"

text \<open>
  A record whose reference text has three parts, as the Srimad Bhagavatam is cited, and
  the row \<^verbatim>\<open>getLastPublishedVerse\<close> reads when that post is the newest.
\<close>

definition canto_text_post :: Post where
  "canto_text_post =
    \<lparr>scriptureSource = SrimadBhagavatam, verseReference = ''1.2.3'', createdAt = 0\<rparr>"

definition canto_text_row :: lastPostRow where
  "canto_text_row = \<lparr>scripture_source = SrimadBhagavatam, firstPart = 1, otherParts = [2, 3]\<rparr>"

text \<open>
  A history in which the first \<open>n\<close> references after \<open>lastVerse\<close> have all been published
  at time 0, read at time 0.
\<close>

definition blockedPosts :: "VerseReference \<Rightarrow> nat \<Rightarrow> Post list" where
  "blockedPosts lastVerse n =
    map (\<lambda>r. publishedPost r 0) (map (candidateAfter lastVerse) [1..<Suc n])"

definition blockedWorld :: "VerseReference \<Rightarrow> nat \<Rightarrow> world" where
  "blockedWorld lastVerse n = constantWorld (Some lastVerse) (blockedPosts lastVerse n) 0"

text \<open>
  Collaborators that fail: the query for the newest post answers an error, the second
  load of the history throws, the client cannot be created, and the query for the newest
  post throws the \<^verbatim>\<open>TypeError\<close> of a request that could not be sent.
\<close>

definition failedLastWorld :: world where
  "failedLastWorld =
    \<lparr>lastPostQuery = Answered None (Some \<lparr>code = ''57014'', message = ''timeout''\<rparr>),
     allPosts = (\<lambda>k. Inr []), currentTime = (\<lambda>k. 0), timeZone = utc\<rparr>"

definition failedLoadWorld :: world where
  "failedLoadWorld =
    \<lparr>lastPostQuery = storedLast (Some gita_2_13),
     allPosts =
       (\<lambda>k. if k = 0 then Inr skipPosts
            else Inl (OtherError ''Failed to get all posts: timeout'')),
     currentTime = (\<lambda>k. 0), timeZone = utc\<rparr>"

definition missingEnvironmentWorld :: world where
  "missingEnvironmentWorld =
    \<lparr>lastPostQuery = Threw (OtherError ''Missing Supabase environment variables.''),
     allPosts = (\<lambda>k. Inr []), currentTime = (\<lambda>k. 0), timeZone = utc\<rparr>"

definition fetchFailedWorld :: world where
  "fetchFailedWorld =
    \<lparr>lastPostQuery = Threw (TypeError ''fetch failed''),
     allPosts = (\<lambda>k. Inr skipPosts), currentTime = (\<lambda>k. 0), timeZone = utc\<rparr>"

text \<open>
  New York in 2023 and 2024: five hours behind UTC, four while daylight saving time is on
  (from the second Sunday of March, 2:00 local time, to the first Sunday of November).
  A local time is read with the offset that was in force before a change of the clock.
\<close>

definition newYork :: zone where
  "newYork =
    \<lparr>offsetAtUTC =
       (\<lambda>t. if (1678604400000 \<le> t \<and> t < 1699164000000)
                \<or> (1710054000000 \<le> t \<and> t < 1730613600000)
             then - 14400000 else - 18000000),
     offsetAtLocal =
       (\<lambda>t. if (1678590000000 \<le> t \<and> t < 1699149600000)
                \<or> (1710039600000 \<le> t \<and> t < 1730599200000)
             then - 14400000 else - 18000000)\<rparr>"

text \<open>16:00 UTC on 10 March 2024, noon in New York on the day the clock was set forward.\<close>

definition march_10_2024 :: int where
  "march_10_2024 = 1710086400000"

section \<open>Facts about the tables\<close>

lemma gita_lookup:
  "map_of BHAGAVAD_GITA_STRUCTURE ch =
    (if ch = 1 then Some 46 else if ch = 2 then Some 72 else if ch = 3 then Some 43
     else if ch = 4 then Some 42 else if ch = 5 then Some 29 else if ch = 6 then Some 47
     else if ch = 7 then Some 30 else if ch = 8 then Some 28 else if ch = 9 then Some 34
     else if ch = 10 then Some 42 else if ch = 11 then Some 55 else if ch = 12 then Some 20
     else if ch = 13 then Some 35 else if ch = 14 then Some 27 else if ch = 15 then Some 20
     else if ch = 16 then Some 24 else if ch = 17 then Some 28 else if ch = 18 then Some 78
     else None)"
  by (simp add: BHAGAVAD_GITA_STRUCTURE_def)

lemma bhagavatam_lookup:
  "bhagavatamVerses 1 ch =
    (if ch = 1 then Some 23 else if ch = 2 then Some 34 else if ch = 3 then Some 44
     else if ch = 4 then Some 33 else if ch = 5 then Some 40 else if ch = 6 then Some 38
     else if ch = 7 then Some 58 else if ch = 8 then Some 52 else if ch = 9 then Some 49
     else if ch = 10 then Some 70 else if ch = 11 then Some 39 else if ch = 12 then Some 36
     else if ch = 13 then Some 60 else if ch = 14 then Some 43 else if ch = 15 then Some 51
     else if ch = 16 then Some 36 else if ch = 17 then Some 46 else if ch = 18 then Some 50
     else if ch = 19 then Some 43 else None)"
  by (simp add: bhagavatamVerses_def SRIMAD_BHAGAVATAM_STRUCTURE_def)

lemma chapters_1_18:
  "1 \<le> ch \<Longrightarrow> ch \<le> 18 \<Longrightarrow>
    ch = 1 \<or> ch = 2 \<or> ch = 3 \<or> ch = 4 \<or> ch = 5 \<or> ch = 6 \<or> ch = 7 \<or> ch = 8 \<or> ch = 9 \<or>
    ch = 10 \<or> ch = 11 \<or> ch = 12 \<or> ch = 13 \<or> ch = 14 \<or> ch = 15 \<or> ch = 16 \<or> ch = 17 \<or>
    ch = (18::int)"
  by arith

lemma chapters_1_19:
  "1 \<le> ch \<Longrightarrow> ch \<le> 19 \<Longrightarrow>
    ch = 1 \<or> ch = 2 \<or> ch = 3 \<or> ch = 4 \<or> ch = 5 \<or> ch = 6 \<or> ch = 7 \<or> ch = 8 \<or> ch = 9 \<or>
    ch = 10 \<or> ch = 11 \<or> ch = 12 \<or> ch = 13 \<or> ch = 14 \<or> ch = 15 \<or> ch = 16 \<or> ch = 17 \<or>
    ch = 18 \<or> ch = (19::int)"
  by arith

lemma gita_out_of_range: "ch < 1 \<or> 18 < ch \<Longrightarrow> map_of BHAGAVAD_GITA_STRUCTURE ch = None"
  by (auto simp add: gita_lookup)

lemma bhagavatam_out_of_range: "ch < 1 \<or> 19 < ch \<Longrightarrow> bhagavatamVerses 1 ch = None"
  by (auto simp add: bhagavatam_lookup)

lemma gita_in_range:
  "1 \<le> ch \<Longrightarrow> ch \<le> 18 \<Longrightarrow> \<exists>n. map_of BHAGAVAD_GITA_STRUCTURE ch = Some n \<and> 20 \<le> n \<and> n \<le> 78"
  by (drule (1) chapters_1_18) (auto simp add: gita_lookup)

lemma bhagavatam_in_range:
  "1 \<le> ch \<Longrightarrow> ch \<le> 19 \<Longrightarrow> \<exists>n. bhagavatamVerses 1 ch = Some n \<and> 23 \<le> n \<and> n \<le> 70"
  by (drule (1) chapters_1_19) (auto simp add: bhagavatam_lookup)

lemma bhagavatam_canto_1: "map_of SRIMAD_BHAGAVATAM_STRUCTURE 1 \<noteq> None"
  by (simp add: SRIMAD_BHAGAVATAM_STRUCTURE_def)

lemma totalVerses_eq: "totalVerses = 1545"
  by (simp add: totalVerses_def BHAGAVAD_GITA_STRUCTURE_def bhagavatamChapters_def
      SRIMAD_BHAGAVATAM_STRUCTURE_def)

lemma gita_total: "sum_list (map snd BHAGAVAD_GITA_STRUCTURE) = 700"
  by (simp add: BHAGAVAD_GITA_STRUCTURE_def)

lemma bhagavatamChapters_eq:
  "bhagavatamChapters =
    [(1, 23), (2, 34), (3, 44), (4, 33), (5, 40), (6, 38), (7, 58), (8, 52), (9, 49),
     (10, 70), (11, 39), (12, 36), (13, 60), (14, 43), (15, 51), (16, 36), (17, 46),
     (18, 50), (19, 43)]"
  by (simp add: bhagavatamChapters_def SRIMAD_BHAGAVATAM_STRUCTURE_def)

section \<open>The sequencer advances the position by one\<close>

lemma gita_step:
  assumes "1 \<le> c" "c \<le> 18" "map_of BHAGAVAD_GITA_STRUCTURE c = Some n" "1 \<le> v" "v \<le> n"
    and r: "r = \<lparr>source = BhagavadGita, chapter = c, verse = v\<rparr>"
  shows "valid (getNextSequentialVerse r)
    \<and> position (getNextSequentialVerse r) = position r + 1
    \<and> 0 \<le> position r \<and> position r < 700
    \<and> atPosition (position r) = Some r"
  using chapters_1_18 [OF assms(1,2)] assms(3-5) unfolding r
  apply (elim disjE)
  apply (simp_all add: gita_lookup)
  apply (simp_all add: getNextSequentialVerse_def valid_def chapterCount_def versesInChapter_def
      gita_lookup bhagavatam_lookup position_def atPosition_def BHAGAVAD_GITA_STRUCTURE_def
      bhagavatamChapters_eq)
  done

lemma bhagavatam_step:
  assumes "1 \<le> c" "c \<le> 19" "bhagavatamVerses 1 c = Some n" "1 \<le> v" "v \<le> n"
    and r: "r = \<lparr>source = SrimadBhagavatam, chapter = c, verse = v\<rparr>"
  shows "valid (getNextSequentialVerse r)
    \<and> position (getNextSequentialVerse r) = (if position r = 1544 then 0 else position r + 1)
    \<and> 700 \<le> position r \<and> position r < 1545
    \<and> atPosition (position r) = Some r"
  using chapters_1_19 [OF assms(1,2)] assms(3-5) unfolding r
  apply (elim disjE)
  apply (simp_all add: bhagavatam_lookup)
  apply (simp_all add: getNextSequentialVerse_def valid_def chapterCount_def versesInChapter_def
      gita_lookup bhagavatam_lookup position_def atPosition_def BHAGAVAD_GITA_STRUCTURE_def
      bhagavatamChapters_eq)
  done

lemma valid_step:
  assumes "valid r"
  shows "valid (getNextSequentialVerse r)
    \<and> position (getNextSequentialVerse r) = (position r + 1) mod totalVerses
    \<and> 0 \<le> position r \<and> position r < totalVerses
    \<and> atPosition (position r) = Some r"
proof -
  obtain s c v where r: "r = \<lparr>source = s, chapter = c, verse = v\<rparr>"
    by (cases r) simp
  show ?thesis
  proof (cases s)
    case BhagavadGita
    from assms obtain n where "1 \<le> c" "c \<le> 18" "map_of BHAGAVAD_GITA_STRUCTURE c = Some n"
      "1 \<le> v" "v \<le> n"
      by (auto simp add: valid_def r BhagavadGita chapterCount_def versesInChapter_def
          split: option.splits)
    from gita_step [OF this r [unfolded BhagavadGita]] show ?thesis
      by (simp add: totalVerses_eq r BhagavadGita)
  next
    case SrimadBhagavatam
    from assms obtain n where "1 \<le> c" "c \<le> 19" "bhagavatamVerses 1 c = Some n"
      "1 \<le> v" "v \<le> n"
      by (auto simp add: valid_def r SrimadBhagavatam chapterCount_def versesInChapter_def
          split: option.splits)
    from bhagavatam_step [OF this r [unfolded SrimadBhagavatam]] show ?thesis
      by (auto simp add: totalVerses_eq r SrimadBhagavatam)
  qed
qed

lemma valid_iterate:
  "valid r \<Longrightarrow> valid ((getNextSequentialVerse ^^ k) r)
    \<and> position ((getNextSequentialVerse ^^ k) r) = (position r + int k) mod totalVerses"
proof (induction k)
  case 0
  then show ?case using valid_step [of r] by simp
next
  case (Suc k)
  then have v: "valid ((getNextSequentialVerse ^^ k) r)"
    and p: "position ((getNextSequentialVerse ^^ k) r) = (position r + int k) mod totalVerses"
    by simp_all
  from valid_step [OF v] have v': "valid (getNextSequentialVerse ((getNextSequentialVerse ^^ k) r))"
    and "position (getNextSequentialVerse ((getNextSequentialVerse ^^ k) r))
      = (position ((getNextSequentialVerse ^^ k) r) + 1) mod totalVerses"
    by simp_all
  then have "position (getNextSequentialVerse ((getNextSequentialVerse ^^ k) r))
      = ((position r + int k) mod totalVerses + 1) mod totalVerses"
    by (simp only: p)
  also have "\<dots> = (position r + int k + 1) mod totalVerses"
    by (rule mod_add_left_eq)
  also have "position r + int k + 1 = position r + int (Suc k)"
    by simp
  finally show ?case using v' by simp
qed

lemma position_inj: "valid r \<Longrightarrow> valid r' \<Longrightarrow> position r = position r' \<Longrightarrow> r = r'"
proof -
  assume "valid r" and "valid r'" and eq: "position r = position r'"
  then have "atPosition (position r) = Some r" and "atPosition (position r') = Some r'"
    using valid_step [of r] valid_step [of r'] by blast+
  with eq have "Some r = Some r'" by (simp only:)
  then show "r = r'" by (simp only: option.inject)
qed

lemma shifted_mod_eq:
  fixes p :: int
  assumes "(p + int i) mod n = (p + int j) mod n" "i < nat n" "j < nat n"
  shows "i = j"
proof -
  from assms(1) have "n dvd (p + int i) - (p + int j)"
    by (simp add: mod_eq_dvd_iff)
  then have d: "n dvd int i - int j" by simp
  have "\<bar>int i - int j\<bar> < n" using assms(2,3) by linarith
  with d have "int i - int j = 0"
    using zdvd_not_zless [of "\<bar>int i - int j\<bar>" n] by (cases "int i - int j = 0") auto
  then show ?thesis by simp
qed

lemma valid_gita_1_1: "valid gita_1_1"
  by (simp add: valid_def gita_1_1_def chapterCount_def versesInChapter_def gita_lookup)

lemma valid_gita_2_13: "valid gita_2_13"
  by (simp add: valid_def gita_2_13_def chapterCount_def versesInChapter_def gita_lookup)

lemma candidates_distinct:
  assumes "valid r" "i < 1545" "j < 1545" "candidateAfter r i = candidateAfter r j"
  shows "i = j"
proof -
  from valid_iterate [OF assms(1), of i] valid_iterate [OF assms(1), of j] assms(4)
  have "(position r + int i) mod totalVerses = (position r + int j) mod totalVerses"
    by (simp add: candidateAfter_def)
  then show ?thesis
    using assms(2,3) by (intro shifted_mod_eq [of "position r" i totalVerses j]) (simp_all add: totalVerses_eq)
qed

section \<open>Decimal texts determine their numbers\<close>

declare digits.simps [simp del]

lemma digitChar_code: "d < 10 \<Longrightarrow> of_char (char_of (48 + d :: nat)) = 48 + d"
  by simp

lemma digitChar_inj:
  assumes "char_of (48 + a :: nat) = char_of (48 + b :: nat)" "a < 10" "b < 10"
  shows "a = b"
proof -
  from assms(1) have "(of_char (char_of (48 + a)) :: nat) = of_char (char_of (48 + b))"
    by simp
  with assms(2,3) show ?thesis by (simp only: digitChar_code)
qed

lemma digits_not_empty: "digits n \<noteq> []"
  by (subst digits.simps) simp

lemma digits_chars: "c \<in> set (digits n) \<Longrightarrow> 48 \<le> (of_char c :: nat) \<and> (of_char c :: nat) \<le> 57"
proof (induction n rule: digits.induct)
  case (1 n)
  show ?case
  proof (cases "n < 10")
    case True
    with "1.prems" have "c = char_of (48 + n)"
      by (subst (asm) digits.simps) simp
    with True show ?thesis by simp
  next
    case False
    with "1.prems" have "c \<in> set (digits (n div 10)) \<or> c = char_of (48 + n mod 10)"
      by (subst (asm) digits.simps) auto
    then show ?thesis
    proof
      assume "c \<in> set (digits (n div 10))"
      with "1.IH" False show ?thesis by simp
    next
      assume "c = char_of (48 + n mod 10)"
      moreover have "n mod 10 < 10" by simp
      ultimately show ?thesis by simp
    qed
  qed
qed

lemma digits_inj: "digits m = digits n \<Longrightarrow> m = n"
proof (induction m arbitrary: n rule: digits.induct)
  case (1 m)
  show ?case
  proof (cases "m < 10")
    case m: True
    show ?thesis
    proof (cases "n < 10")
      case True
      with m "1.prems" have "char_of (48 + m) = char_of (48 + n)"
        by (simp add: digits.simps [of m] digits.simps [of n])
      then show ?thesis using m True by (rule digitChar_inj)
    next
      case False
      with m "1.prems" have "digits (n div 10) = []"
        by (simp add: digits.simps [of m] digits.simps [of n] Cons_eq_append_conv)
      with digits_not_empty show ?thesis by blast
    qed
  next
    case m: False
    show ?thesis
    proof (cases "n < 10")
      case True
      with m "1.prems" have "digits (m div 10) = []"
        by (simp add: digits.simps [of m] digits.simps [of n] append_eq_Cons_conv)
      with digits_not_empty show ?thesis by blast
    next
      case False
      with m "1.prems" have eq: "digits (m div 10) = digits (n div 10)"
        and last: "char_of (48 + m mod 10) = char_of (48 + n mod 10)"
        by (simp_all add: digits.simps [of m] digits.simps [of n])
      from "1.IH" [OF m eq] have "m div 10 = n div 10" .
      moreover from last have "m mod 10 = n mod 10"
        by (rule digitChar_inj) simp_all
      ultimately show ?thesis by (metis div_mult_mod_eq)
    qed
  qed
qed

lemma numberToString_chars:
  "c \<in> set (numberToString i) \<Longrightarrow> c \<noteq> CHR ''.''"
  by (auto simp add: numberToString_def dest: digits_chars split: if_splits)

lemma numberToString_inj: "numberToString i = numberToString j \<Longrightarrow> i = j"
proof -
  assume eq: "numberToString i = numberToString j"
  have minus: "hd (digits k) \<noteq> CHR ''-''" for k
  proof -
    have "hd (digits k) \<in> set (digits k)" by (simp add: digits_not_empty)
    from digits_chars [OF this] show ?thesis by auto
  qed
  have neq: "CHR ''-'' # digits a \<noteq> digits b" for a b
    using minus [of b] by (metis list.sel(1))
  show "i = j"
  proof (cases "i < 0")
    case i: True
    show ?thesis
    proof (cases "j < 0")
      case True
      with i eq have "digits (nat (- i)) = digits (nat (- j))" by (simp add: numberToString_def)
      then have "nat (- i) = nat (- j)" by (rule digits_inj)
      with i True show ?thesis by simp
    next
      case False
      with i eq neq show ?thesis by (simp add: numberToString_def)
    qed
  next
    case i: False
    show ?thesis
    proof (cases "j < 0")
      case True
      with i eq neq [of "nat (- j)" "nat i"] show ?thesis by (simp add: numberToString_def)
    next
      case False
      with i eq have "digits (nat i) = digits (nat j)" by (simp add: numberToString_def)
      then have "nat i = nat j" by (rule digits_inj)
      with i False show ?thesis by simp
    qed
  qed
qed

lemma split_at_separator:
  "c \<notin> set a \<Longrightarrow> c \<notin> set a' \<Longrightarrow> a @ c # b = a' @ c # b' \<Longrightarrow> a = a' \<and> b = b'"
proof (induction a arbitrary: a')
  case Nil
  then show ?case by (cases a') auto
next
  case (Cons x a)
  then show ?case by (cases a') auto
qed

lemma reference_text_inj:
  assumes "numberToString a @ ''.'' @ numberToString b = numberToString a' @ ''.'' @ numberToString b'"
  shows "a = a' \<and> b = b'"
proof -
  have "CHR ''.'' \<notin> set (numberToString a)" "CHR ''.'' \<notin> set (numberToString a')"
    using numberToString_chars by blast+
  from split_at_separator [OF this] assms
  have "numberToString a = numberToString a' \<and> numberToString b = numberToString b'"
    by simp
  then show ?thesis by (auto dest: numberToString_inj)
qed

section \<open>The recency check on a constant history\<close>

lemma lastPublishedVerse_zonedWorld:
  "lastPublishedVerse (zonedWorld z lastVerse posts now) = Inr lastVerse"
  by (cases lastVerse)
    (simp_all add: lastPublishedVerse_def zonedWorld_def storedLast_def
      getLastPublishedVerse_def readLastPublishedVerse_def)

lemma lastPublishedVerse_constantWorld:
  "lastPublishedVerse (constantWorld lastVerse posts now) = Inr lastVerse"
  by (simp add: constantWorld_def lastPublishedVerse_zonedWorld)

lemma cutoffDateOf_utc: "cutoffDateOf utc now days = daysBefore now days"
  by (simp add: cutoffDateOf_def utc_def daysBefore_def)

lemma zonedWorld_check_days:
  "hasVerseBeenPublishedRecently (zonedWorld z lastVerse posts now) k v days
    = Inr (\<exists>p\<in>set posts. postMatches v (cutoffDateOf z now days) p)"
  by (simp add: hasVerseBeenPublishedRecently_def zonedWorld_def list_ex_iff)

lemma zonedWorld_check:
  "hasVerseBeenPublishedRecently (zonedWorld z lastVerse posts now) k v 365
    = Inr (recentAt z posts now v)"
  by (simp add: zonedWorld_check_days recentAt_def)

lemma recentIn_utc: "recentIn posts now = recentAt utc posts now"
  by (rule ext) (simp add: recentIn_def recentAt_def constantWorld_def)

lemma constantWorld_check_days:
  "hasVerseBeenPublishedRecently (constantWorld lastVerse posts now) k v days
    = Inr (\<exists>p\<in>set posts. postMatches v (daysBefore now days) p)"
  by (simp add: constantWorld_def zonedWorld_check_days cutoffDateOf_utc)

lemma recentIn_iff:
  "recentIn posts now v = (\<exists>p\<in>set posts. postMatches v (daysBefore now 365) p)"
  by (simp add: recentIn_def constantWorld_check_days)

lemma postMatches_publishedPost:
  "postMatches v cutoff (publishedPost r t) = (r = v \<and> cutoff \<le> t)"
proof -
  have "numberToString (chapter r) @ ''.'' @ numberToString (verse r)
      = numberToString (chapter v) @ ''.'' @ numberToString (verse v)
    \<longleftrightarrow> chapter r = chapter v \<and> verse r = verse v"
    using reference_text_inj [of "chapter r" "verse r" "chapter v" "verse v"] by auto
  then show ?thesis
    by (cases r; cases v) (auto simp add: postMatches_def publishedPost_def)
qed

lemma recentIn_published:
  "recentIn (map (\<lambda>r. publishedPost r t) refs) now v = (v \<in> set refs \<and> daysBefore now 365 \<le> t)"
  by (auto simp add: recentIn_iff postMatches_publishedPost)

section \<open>The loop\<close>

declare recencyLoop.simps [simp del]

lemma constantWorld_check:
  "hasVerseBeenPublishedRecently (constantWorld lastVerse posts now) k v 365
    = Inr (recentIn posts now v)"
  by (simp add: constantWorld_def zonedWorld_check recentIn_utc)

lemma loop_accepts:
  assumes check: "\<And>k v. hasVerseBeenPublishedRecently w k v 365 = Inr (R v)"
  shows "(\<forall>i<n. R ((getNextSequentialVerse ^^ i) v)) \<Longrightarrow> \<not> R ((getNextSequentialVerse ^^ n) v)
    \<Longrightarrow> attempts + n < maxAttempts
    \<Longrightarrow> recencyLoop w v attempts loads = (Inr ((getNextSequentialVerse ^^ n) v), loads + n + 1)"
proof (induction n arbitrary: v attempts loads)
  case 0
  then show ?case by (subst recencyLoop.simps) (simp add: check)
next
  case (Suc n)
  from Suc.prems(1) have now: "R v" by force
  have "\<forall>i<n. R ((getNextSequentialVerse ^^ i) (getNextSequentialVerse v))"
  proof (intro allI impI)
    fix i assume "i < n"
    with Suc.prems(1) have "R ((getNextSequentialVerse ^^ Suc i) v)" by blast
    then show "R ((getNextSequentialVerse ^^ i) (getNextSequentialVerse v))"
      by (simp add: funpow_swap1)
  qed
  moreover from Suc.prems(2) have "\<not> R ((getNextSequentialVerse ^^ n) (getNextSequentialVerse v))"
    by (simp add: funpow_swap1)
  moreover from Suc.prems(3) have "attempts + 1 + n < maxAttempts" by simp
  ultimately have "recencyLoop w (getNextSequentialVerse v) (attempts + 1) (loads + 1)
      = (Inr ((getNextSequentialVerse ^^ n) (getNextSequentialVerse v)), loads + 1 + n + 1)"
    by (rule Suc.IH)
  moreover from Suc.prems(3) have "\<not> attempts + 1 \<ge> maxAttempts" by simp
  ultimately show ?case using now
    by (subst recencyLoop.simps) (simp add: check funpow_swap1)
qed

lemma loop_exhausts:
  assumes check: "\<And>k v. hasVerseBeenPublishedRecently w k v 365 = Inr (R v)"
  shows "attempts + n = maxAttempts \<Longrightarrow> 0 < n \<Longrightarrow> (\<forall>i<n. R ((getNextSequentialVerse ^^ i) v))
    \<Longrightarrow> recencyLoop w v attempts loads = (Inl UnableToFindVerse, loads + n)"
proof (induction n arbitrary: v attempts loads)
  case 0
  then show ?case by simp
next
  case (Suc n)
  from Suc.prems(3) have now: "R v" by force
  show ?case
  proof (cases "n = 0")
    case True
    with Suc.prems(1) now show ?thesis
      by (subst recencyLoop.simps) (simp add: check)
  next
    case False
    have "\<forall>i<n. R ((getNextSequentialVerse ^^ i) (getNextSequentialVerse v))"
    proof (intro allI impI)
      fix i assume "i < n"
      with Suc.prems(3) have "R ((getNextSequentialVerse ^^ Suc i) v)" by blast
      then show "R ((getNextSequentialVerse ^^ i) (getNextSequentialVerse v))"
        by (simp add: funpow_swap1)
    qed
    moreover from Suc.prems(1) have "attempts + 1 + n = maxAttempts" by simp
    moreover from False have "0 < n" by simp
    ultimately have "recencyLoop w (getNextSequentialVerse v) (attempts + 1) (loads + 1)
        = (Inl UnableToFindVerse, loads + 1 + n)"
      by (intro Suc.IH)
    moreover from Suc.prems(1) False have "\<not> attempts + 1 \<ge> maxAttempts" by simp
    ultimately show ?thesis using now
      by (subst recencyLoop.simps) (simp add: check)
  qed
qed

lemma loop_loads:
  "attempts < maxAttempts \<Longrightarrow> recencyLoop w v attempts loads = (res, n)
    \<Longrightarrow> loads < n \<and> n - loads \<le> maxAttempts - attempts"
proof (induction w v attempts loads rule: recencyLoop.induct)
  case (1 w nextVerse attempts loads)
  show ?case
  proof (cases "hasVerseBeenPublishedRecently w loads nextVerse 365")
    case (Inl e)
    with "1.prems" show ?thesis
      by (subst (asm) recencyLoop.simps) auto
  next
    case (Inr recent)
    show ?thesis
    proof (cases "recent \<and> \<not> attempts + 1 \<ge> maxAttempts")
      case True
      with Inr "1.prems" have "recencyLoop w (getNextSequentialVerse nextVerse) (attempts + 1) (loads + 1) = (res, n)"
        by (subst (asm) recencyLoop.simps) simp
      with "1.IH" [OF Inr] True have "loads + 1 < n \<and> n - (loads + 1) \<le> maxAttempts - (attempts + 1)"
        by simp
      with True show ?thesis by auto
    next
      case False
      with Inr "1.prems" show ?thesis
        by (subst (asm) recencyLoop.simps) (auto split: if_splits)
    qed
  qed
qed

lemma loop_valid:
  "valid v \<Longrightarrow> recencyLoop w v attempts loads = (Inr x, n) \<Longrightarrow> valid x"
proof (induction w v attempts loads rule: recencyLoop.induct)
  case (1 w nextVerse attempts loads)
  show ?case
  proof (cases "hasVerseBeenPublishedRecently w loads nextVerse 365")
    case (Inl e)
    with "1.prems" show ?thesis
      by (subst (asm) recencyLoop.simps) auto
  next
    case (Inr recent)
    show ?thesis
    proof (cases "recent \<and> \<not> attempts + 1 \<ge> maxAttempts")
      case True
      with Inr "1.prems" have "recencyLoop w (getNextSequentialVerse nextVerse) (attempts + 1) (loads + 1) = (Inr x, n)"
        by (subst (asm) recencyLoop.simps) simp
      moreover from "1.prems"(1) have "valid (getNextSequentialVerse nextVerse)"
        using valid_step by blast
      ultimately show ?thesis using "1.IH" [OF Inr] True by simp
    next
      case False
      with Inr "1.prems" show ?thesis
        by (subst (asm) recencyLoop.simps) (auto split: if_splits)
    qed
  qed
qed

lemma loop_upstream:
  "recencyLoop w v attempts loads = (res, n) \<Longrightarrow> loads \<le> k \<Longrightarrow> k < n \<Longrightarrow> allPosts w k = Inl e
    \<Longrightarrow> res = Inl (Upstream e) \<and> n = k + 1"
proof (induction w v attempts loads rule: recencyLoop.induct)
  case (1 w nextVerse attempts loads)
  show ?case
  proof (cases "hasVerseBeenPublishedRecently w loads nextVerse 365")
    case (Inl e')
    with "1.prems" have n: "res = Inl e'" "n = loads + 1"
      by (subst (asm) recencyLoop.simps, simp)+
    with "1.prems" have "k = loads" by simp
    with "1.prems"(4) Inl n show ?thesis
      by (simp add: hasVerseBeenPublishedRecently_def)
  next
    case (Inr recent)
    then have ok: "\<And>e. allPosts w loads \<noteq> Inl e"
      by (auto simp add: hasVerseBeenPublishedRecently_def)
    show ?thesis
    proof (cases "recent \<and> \<not> attempts + 1 \<ge> maxAttempts")
      case True
      with Inr "1.prems" have "recencyLoop w (getNextSequentialVerse nextVerse) (attempts + 1) (loads + 1) = (res, n)"
        by (subst (asm) recencyLoop.simps) simp
      moreover from ok "1.prems" have "loads + 1 \<le> k" by (cases "k = loads") auto
      ultimately show ?thesis using "1.IH" [OF Inr] True "1.prems" by simp
    next
      case False
      with Inr "1.prems" have "n = loads + 1"
        by (subst (asm) recencyLoop.simps) (auto split: if_splits)
      with "1.prems" have "k = loads" by simp
      with ok "1.prems"(4) show ?thesis by simp
    qed
  qed
qed

section \<open>The selector on a constant history\<close>

lemma blocked_recent:
  "recentIn (blockedPosts l n) 0 c = (c \<in> candidateAfter l ` {1..n})"
proof -
  have "recentIn (blockedPosts l n) 0 c = (c \<in> set (map (candidateAfter l) [1..<Suc n]))"
    by (simp only: blockedPosts_def recentIn_published) (simp add: daysBefore_def msPerDay_def del: upt_Suc)
  also have "set (map (candidateAfter l) [1..<Suc n]) = candidateAfter l ` {1..n}"
    by (simp add: atLeastLessThanSuc_atLeastAtMost del: upt_Suc)
  finally show ?thesis .
qed

lemma blocked_inside: "1 \<le> k \<Longrightarrow> k \<le> n \<Longrightarrow> recentIn (blockedPosts l n) 0 (candidateAfter l k)"
  by (simp add: blocked_recent)

lemma blocked_outside:
  assumes "valid l" "n < k" "k < 1545"
  shows "\<not> recentIn (blockedPosts l n) 0 (candidateAfter l k)"
proof
  assume "recentIn (blockedPosts l n) 0 (candidateAfter l k)"
  then obtain j where j: "1 \<le> j" "j \<le> n" "candidateAfter l k = candidateAfter l j"
    by (auto simp add: blocked_recent)
  with assms have "k = j" by (intro candidates_distinct [OF assms(1)]) simp_all
  with j assms show False by simp
qed

lemma getNextVerse_zoned_accept:
  assumes "\<forall>i<n. recentAt z posts now (candidateAfter l (Suc i))"
    and "\<not> recentAt z posts now (candidateAfter l (Suc n))" and "n < maxAttempts"
  shows "getNextVerse (zonedWorld z (Some l) posts now) = (Inr (candidateAfter l (Suc n)), n + 2)"
proof -
  let ?w = "zonedWorld z (Some l) posts now"
  have "recencyLoop ?w (getNextSequentialVerse l) 0 0
      = (Inr ((getNextSequentialVerse ^^ n) (getNextSequentialVerse l)), 0 + n + 1)"
  proof (rule loop_accepts [where R = "recentAt z posts now"])
    show "hasVerseBeenPublishedRecently ?w k v 365 = Inr (recentAt z posts now v)" for k v
      by (rule zonedWorld_check)
    show "\<forall>i<n. recentAt z posts now ((getNextSequentialVerse ^^ i) (getNextSequentialVerse l))"
      using assms(1) by (simp add: candidateAfter_def funpow_swap1)
    show "\<not> recentAt z posts now ((getNextSequentialVerse ^^ n) (getNextSequentialVerse l))"
      using assms(2) by (simp add: candidateAfter_def funpow_swap1)
    show "0 + n < maxAttempts" using assms(3) by simp
  qed
  then show ?thesis
    by (simp add: getNextVerse_def lastPublishedVerse_zonedWorld candidateAfter_def funpow_swap1)
qed

lemma getNextVerse_zoned_exhaust:
  assumes "\<forall>i<maxAttempts. recentAt z posts now (candidateAfter l (Suc i))"
  shows "getNextVerse (zonedWorld z (Some l) posts now) = (Inl UnableToFindVerse, 1 + maxAttempts)"
proof -
  let ?w = "zonedWorld z (Some l) posts now"
  have "recencyLoop ?w (getNextSequentialVerse l) 0 0 = (Inl UnableToFindVerse, 0 + maxAttempts)"
  proof (rule loop_exhausts [where R = "recentAt z posts now"])
    show "hasVerseBeenPublishedRecently ?w k v 365 = Inr (recentAt z posts now v)" for k v
      by (rule zonedWorld_check)
    show "\<forall>i<maxAttempts. recentAt z posts now ((getNextSequentialVerse ^^ i) (getNextSequentialVerse l))"
      using assms(1) by (simp add: candidateAfter_def funpow_swap1)
    show "0 + maxAttempts = maxAttempts" by simp
    show "0 < maxAttempts" by (simp add: maxAttempts_def)
  qed
  then show ?thesis
    by (simp add: getNextVerse_def lastPublishedVerse_zonedWorld)
qed

lemma getNextVerse_constant_accept:
  assumes "\<forall>i<n. recentIn posts now (candidateAfter l (Suc i))"
    and "\<not> recentIn posts now (candidateAfter l (Suc n))" and "n < maxAttempts"
  shows "getNextVerse (constantWorld (Some l) posts now) = (Inr (candidateAfter l (Suc n)), n + 2)"
  using assms getNextVerse_zoned_accept [of n utc posts now l]
  by (simp add: constantWorld_def recentIn_utc)

lemma getNextVerse_constant_exhaust:
  assumes "\<forall>i<maxAttempts. recentIn posts now (candidateAfter l (Suc i))"
  shows "getNextVerse (constantWorld (Some l) posts now) = (Inl UnableToFindVerse, 1 + maxAttempts)"
  using assms getNextVerse_zoned_exhaust [of utc posts now l]
  by (simp add: constantWorld_def recentIn_utc)

lemma first_rejected:
  assumes "\<not> (\<forall>i<m. P (i::nat))"
  shows "\<exists>n<m. \<not> P n \<and> (\<forall>i<n. P i)"
proof -
  from assms obtain k where k: "k < m" "\<not> P k" by blast
  define n where "n = (LEAST k. \<not> P k)"
  from k(2) have "\<not> P n" unfolding n_def by (rule LeastI)
  moreover have "n \<le> k" unfolding n_def using k(2) by (rule Least_le)
  with k(1) have "n < m" by simp
  moreover have "\<forall>i<n. P i" unfolding n_def using not_less_Least by blast
  ultimately show ?thesis by blast
qed

lemma getNextVerse_zoned_result:
  assumes "fst (getNextVerse (zonedWorld z (Some l) posts now)) = Inr x"
  shows "\<exists>n<1000. x = candidateAfter l (Suc n) \<and> \<not> recentAt z posts now x"
proof (cases "\<forall>i<1000. recentAt z posts now (candidateAfter l (Suc i))")
  case True
  then have "fst (getNextVerse (zonedWorld z (Some l) posts now)) = Inl UnableToFindVerse"
    using getNextVerse_zoned_exhaust [of z posts now l] by (simp add: maxAttempts_def)
  with assms show ?thesis by simp
next
  case False
  then obtain m where m: "m < 1000" "\<not> recentAt z posts now (candidateAfter l (Suc m))"
    "\<forall>i<m. recentAt z posts now (candidateAfter l (Suc i))"
    using first_rejected [of 1000 "\<lambda>i. recentAt z posts now (candidateAfter l (Suc i))"] by blast
  then have "fst (getNextVerse (zonedWorld z (Some l) posts now)) = Inr (candidateAfter l (Suc m))"
    using getNextVerse_zoned_accept [of m z posts now l] by (simp add: maxAttempts_def)
  with assms have "x = candidateAfter l (Suc m)" by simp
  with m show ?thesis by blast
qed

lemma getNextVerse_constant_result:
  assumes "fst (getNextVerse (constantWorld (Some l) posts now)) = Inr x"
  shows "\<exists>n<1000. x = candidateAfter l (Suc n) \<and> \<not> recentIn posts now x"
  using assms getNextVerse_zoned_result [of utc l posts now x]
  by (simp add: constantWorld_def recentIn_utc)

lemma blockedWorld_exhausted:
  "getNextVerse (blockedWorld l 1000) = (Inl UnableToFindVerse, 1001)"
  unfolding blockedWorld_def
  using getNextVerse_constant_exhaust [of "blockedPosts l 1000" 0 l]
  by (simp add: blocked_inside maxAttempts_def)

lemma spec_earliestEligible_index:
  assumes "\<forall>i<n. recentIn posts now (candidateAfter l (Suc i))"
    and "\<not> recentIn posts now (candidateAfter l (Suc n))" and "n < 1545"
  shows "spec_earliestEligible posts now l = Some (candidateAfter l (Suc n))"
proof -
  let ?xs = "map (candidateAfter l) [1..<Suc (nat totalVerses)]"
  have len: "length ?xs = 1545" by (simp add: totalVerses_eq)
  have nth: "?xs ! i = candidateAfter l (Suc i)" if "i < 1545" for i
    using that by (simp add: totalVerses_eq nth_append del: upt_Suc)
  have "\<exists>i<length ?xs. \<not> recentIn posts now (?xs ! i) \<and> candidateAfter l (Suc n) = ?xs ! i
      \<and> (\<forall>j<i. \<not> \<not> recentIn posts now (?xs ! j))"
  proof (intro exI [of _ n] conjI allI impI)
    show "n < length ?xs" using assms(3) len by simp
    show "\<not> recentIn posts now (?xs ! n)" using assms(2,3) nth by simp
    show "candidateAfter l (Suc n) = ?xs ! n" using assms(3) nth by simp
    show "\<not> \<not> recentIn posts now (?xs ! j)" if "j < n" for j
      using that assms(1,3) nth [of j] by simp
  qed
  then show ?thesis
    unfolding spec_earliestEligible_def find_Some_iff by blast
qed

section \<open>Reading a two-part text back\<close>

lemma splitOn_no_separator: "c \<notin> set a \<Longrightarrow> splitOn c a = [a]"
  by (induction a) auto

lemma splitOn_at_separator: "c \<notin> set a \<Longrightarrow> splitOn c (a @ c # b) = a # splitOn c b"
  by (induction a) auto

lemma digitValue_digit: "d < 10 \<Longrightarrow> digitValue (char_of (48 + d)) = Some d"
  by (simp add: digitValue_def)

lemma digitsValue_digits: "digitsValue (digits n @ ys) 0 = digitsValue ys n"
proof (induction n arbitrary: ys rule: digits.induct)
  case (1 n)
  show ?case
  proof (cases "n < 10")
    case True
    then show ?thesis
      by (subst digits.simps) (simp add: digitValue_digit)
  next
    case False
    have "digitsValue (digits n @ ys) 0
        = digitsValue (digits (n div 10) @ (char_of (48 + n mod 10) # ys)) 0"
      using False by (subst digits.simps) simp
    also have "\<dots> = digitsValue (char_of (48 + n mod 10) # ys) (n div 10)"
      using False by (rule "1.IH")
    also have "\<dots> = digitsValue ys (10 * (n div 10) + n mod 10)"
      by (simp add: digitValue_digit)
    finally show ?thesis by simp
  qed
qed

lemma parseInteger_numberToString: "parseInteger (numberToString i) = Some i"
proof (cases "i < 0")
  case True
  have "digitsValue (digits (nat (- i))) 0 = Some (nat (- i))"
    using digitsValue_digits [of "nat (- i)" "[]"] by simp
  with True show ?thesis
    by (simp add: parseInteger_def numberToString_def digits_not_empty)
next
  case False
  obtain c cs where cs: "digits (nat i) = c # cs"
    using digits_not_empty [of "nat i"] by (cases "digits (nat i)") auto
  then have "c \<in> set (digits (nat i))" by simp
  from digits_chars [OF this] have "c \<noteq> CHR ''-''" by auto
  moreover have "digitsValue (digits (nat i)) 0 = Some (nat i)"
    using digitsValue_digits [of "nat i" "[]"] by simp
  ultimately show ?thesis using False cs
    by (simp add: parseInteger_def numberToString_def)
qed

lemma spec_parsedReference_two_part:
  "spec_parsedReference (numberToString c @ ''.'' @ numberToString n) = Some (c, n)"
proof -
  have "CHR ''.'' \<notin> set (numberToString c)" "CHR ''.'' \<notin> set (numberToString n)"
    using numberToString_chars by blast+
  then have "splitOn CHR ''.'' (numberToString c @ ''.'' @ numberToString n)
      = [numberToString c, numberToString n]"
    by (simp add: splitOn_at_separator splitOn_no_separator)
  then show ?thesis
    by (simp add: spec_parsedReference_def parseInteger_numberToString)
qed

section \<open>The example history\<close>

lemma skipWorld_result:
  "getNextVerse skipWorld = (Inr \<lparr>source = BhagavadGita, chapter = 2, verse = 15\<rparr>, 3)"
  by code_simp

lemma skip_first: "recentIn skipPosts 0 (candidateAfter gita_2_13 (Suc 0))"
  by code_simp

lemma skip_second: "\<not> recentIn skipPosts 0 (candidateAfter gita_2_13 (Suc (Suc 0)))"
  by code_simp

lemma skip_candidate: "candidateAfter gita_2_13 (Suc (Suc 0)) = \<lparr>source = BhagavadGita, chapter = 2, verse = 15\<rparr>"
  by code_simp

lemma getNextVerse_constant_none:
  "getNextVerse (constantWorld None posts now)
    = (Inr \<lparr>source = BhagavadGita, chapter = 1, verse = 1\<rparr>, 1)"
  by (simp add: getNextVerse_def lastPublishedVerse_constantWorld)

lemma getNextVerse_zoned_none:
  "getNextVerse (zonedWorld z None posts now)
    = (Inr \<lparr>source = BhagavadGita, chapter = 1, verse = 1\<rparr>, 1)"
  by (simp add: getNextVerse_def lastPublishedVerse_zonedWorld)

lemma getNextVerse_read_bounds: "1 \<le> snd (getNextVerse w) \<and> snd (getNextVerse w) \<le> 1001"
proof (cases "lastPublishedVerse w")
  case (Inl e)
  then show ?thesis by (simp add: getNextVerse_def)
next
  case (Inr last)
  show ?thesis
  proof (cases last)
    case None
    with Inr show ?thesis by (simp add: getNextVerse_def)
  next
    case (Some l)
    obtain res n where loop: "recencyLoop w (getNextSequentialVerse l) 0 0 = (res, n)"
      by (cases "recencyLoop w (getNextSequentialVerse l) 0 0")
    from loop_loads [OF _ loop] have "n \<le> 1000" by (simp add: maxAttempts_def)
    with Inr Some loop show ?thesis by (simp add: getNextVerse_def)
  qed
qed

lemma failedLoadWorld_result:
  "getNextVerse failedLoadWorld
    = (Inl (Upstream (OtherError ''Failed to get all posts: timeout'')), 3)"
  by code_simp

section \<open>Selection of the earliest eligible successor\<close>

text \<open>
  A history in which the first 1000 references after Bhagavad Gita 1.1 were published
  within the window: the earliest successor that has not been used is the 1001st, and the
  selector does not return it; it fails.
\<close>

theorem getNextVerse_earliest_counterexample:
  "spec_earliestEligible (blockedPosts gita_1_1 1000) 0 gita_1_1 = Some (candidateAfter gita_1_1 1001)
    \<and> fst (getNextVerse (blockedWorld gita_1_1 1000)) = Inl UnableToFindVerse"
proof
  have "\<forall>i<1000. recentIn (blockedPosts gita_1_1 1000) 0 (candidateAfter gita_1_1 (Suc i))"
    by (simp add: blocked_inside)
  moreover have "\<not> recentIn (blockedPosts gita_1_1 1000) 0 (candidateAfter gita_1_1 (Suc 1000))"
    by (rule blocked_outside [OF valid_gita_1_1]) simp_all
  ultimately have "spec_earliestEligible (blockedPosts gita_1_1 1000) 0 gita_1_1
      = Some (candidateAfter gita_1_1 (Suc 1000))"
    by (rule spec_earliestEligible_index) simp
  then show "spec_earliestEligible (blockedPosts gita_1_1 1000) 0 gita_1_1
      = Some (candidateAfter gita_1_1 1001)"
    by simp
  show "fst (getNextVerse (blockedWorld gita_1_1 1000)) = Inl UnableToFindVerse"
    by (simp add: blockedWorld_exhausted)
qed

text \<open>
  C1, as the code has it. For every last published reference and every publication
  history (one that does not change during the invocation) in which fewer than 1000
  successive ring successors of the last published reference are recently published,
  \<^verbatim>\<open>getNextVerse\<close> returns the first reference reached from it by repeatedly
  applying \<^verbatim>\<open>getNextSequentialVerse\<close> that the recency check (365 days) does not
  report as recently published, which is the earliest ring successor not used in the
  trailing window; and when there is no last published reference it returns Bhagavad
  Gita, chapter 1, verse 1 after that single read, without any recency check.
\<close>

theorem getNextVerse_earliest:
  assumes "\<forall>i<n. recentIn posts now (candidateAfter lastVerse (Suc i))"
    and "\<not> recentIn posts now (candidateAfter lastVerse (Suc n))"
    and "n < 1000"
  shows "fst (getNextVerse (constantWorld (Some lastVerse) posts now))
      = Inr (candidateAfter lastVerse (Suc n))
    \<and> spec_earliestEligible posts now lastVerse = Some (candidateAfter lastVerse (Suc n))
    \<and> getNextVerse (constantWorld None posts now)
      = (Inr \<lparr>source = BhagavadGita, chapter = 1, verse = 1\<rparr>, 1)"
proof (intro conjI)
  from assms(3) have "n < maxAttempts" by (simp add: maxAttempts_def)
  with assms(1,2) show "fst (getNextVerse (constantWorld (Some lastVerse) posts now))
      = Inr (candidateAfter lastVerse (Suc n))"
    by (simp add: getNextVerse_constant_accept)
  from assms(3) have "n < 1545" by simp
  with assms(1,2) show "spec_earliestEligible posts now lastVerse = Some (candidateAfter lastVerse (Suc n))"
    by (rule spec_earliestEligible_index)
  show "getNextVerse (constantWorld None posts now)
      = (Inr \<lparr>source = BhagavadGita, chapter = 1, verse = 1\<rparr>, 1)"
    by (rule getNextVerse_constant_none)
qed

theorem getNextVerse_earliest_witness:
  "recentIn skipPosts 0 (candidateAfter gita_2_13 (Suc 0))
    \<and> \<not> recentIn skipPosts 0 (candidateAfter gita_2_13 (Suc (Suc 0)))
    \<and> fst (getNextVerse skipWorld) = Inr \<lparr>source = BhagavadGita, chapter = 2, verse = 15\<rparr>
    \<and> spec_earliestEligible skipPosts 0 gita_2_13 = Some \<lparr>source = BhagavadGita, chapter = 2, verse = 15\<rparr>"
proof -
  have "\<forall>i<Suc 0. recentIn skipPosts 0 (candidateAfter gita_2_13 (Suc i))"
    using skip_first by simp
  from getNextVerse_earliest [OF this skip_second] skip_first skip_second show ?thesis
    by (simp add: skipWorld_def skip_candidate)
qed

section \<open>The ring\<close>

text \<open>
  C2. The successor map is a single cycle over the modelled canon. The canon has
  700 + 845 = 1545 verses; for every valid reference \<open>r\<close>, applying
  \<^verbatim>\<open>getNextSequentialVerse\<close> 1545 times returns \<open>r\<close>, no reference is visited twice
  before that, and every valid reference is visited.
\<close>

theorem ring_totality:
  assumes "valid r"
  shows "totalVerses = 1545
    \<and> (getNextSequentialVerse ^^ 1545) r = r
    \<and> (\<forall>i j. i < j \<and> j < 1545 \<longrightarrow>
          (getNextSequentialVerse ^^ i) r \<noteq> (getNextSequentialVerse ^^ j) r)
    \<and> (\<forall>r'. valid r' \<longrightarrow> (\<exists>k<1545. (getNextSequentialVerse ^^ k) r = r'))"
proof (intro conjI allI impI)
  show "totalVerses = 1545" by (rule totalVerses_eq)
next
  have range: "0 \<le> position r" "position r < 1545"
    using valid_step [OF assms] by (simp_all add: totalVerses_eq)
  from valid_iterate [OF assms, of 1545]
  have "valid ((getNextSequentialVerse ^^ 1545) r)"
    and "position ((getNextSequentialVerse ^^ 1545) r) = (position r + 1545) mod 1545"
    by (simp_all add: totalVerses_eq)
  with range have "position ((getNextSequentialVerse ^^ 1545) r) = position r" by simp
  with \<open>valid ((getNextSequentialVerse ^^ 1545) r)\<close> assms
  show "(getNextSequentialVerse ^^ 1545) r = r" by (intro position_inj)
next
  fix i j :: nat
  assume ij: "i < j \<and> j < 1545"
  show "(getNextSequentialVerse ^^ i) r \<noteq> (getNextSequentialVerse ^^ j) r"
  proof
    assume "(getNextSequentialVerse ^^ i) r = (getNextSequentialVerse ^^ j) r"
    then have "candidateAfter r i = candidateAfter r j" by (simp add: candidateAfter_def)
    with assms ij have "i = j" by (intro candidates_distinct [of r]) simp_all
    with ij show False by simp
  qed
next
  fix r'
  assume r': "valid r'"
  have p: "0 \<le> position r'" "position r' < 1545"
    using valid_step [OF r'] by (simp_all add: totalVerses_eq)
  define k where "k = nat ((position r' - position r) mod 1545)"
  have k: "int k = (position r' - position r) mod 1545" "k < 1545"
    by (simp_all add: k_def)
  from valid_iterate [OF assms, of k]
  have v: "valid ((getNextSequentialVerse ^^ k) r)"
    and pk: "position ((getNextSequentialVerse ^^ k) r)
      = (position r + (position r' - position r) mod 1545) mod 1545"
    by (simp_all add: totalVerses_eq k)
  note pk
  also have "\<dots> = (position r + (position r' - position r)) mod 1545"
    by (rule mod_add_right_eq)
  also have "\<dots> = position r'" using p by simp
  finally have "(getNextSequentialVerse ^^ k) r = r'" using v r' by (intro position_inj)
  with k(2) show "\<exists>k<1545. (getNextSequentialVerse ^^ k) r = r'" by blast
qed

theorem ring_totality_witness:
  "valid gita_1_1
    \<and> (getNextSequentialVerse ^^ 1545) gita_1_1 = gita_1_1
    \<and> (getNextSequentialVerse ^^ 46) gita_1_1 \<noteq> (getNextSequentialVerse ^^ 700) gita_1_1"
proof -
  have "(46::nat) < 700 \<and> (700::nat) < 1545" by simp
  with ring_totality [OF valid_gita_1_1] valid_gita_1_1 show ?thesis by blast
qed

section \<open>Which records count for a candidate\<close>

text \<open>
  On a record whose reference text is the two-part decimal text \<open>c.n\<close>, the form the
  publishing route stores, the comparison the code makes agrees with the rule of the
  specification.
\<close>

lemma postMatches_two_part:
  assumes "verseReference post = numberToString c @ ''.'' @ numberToString n"
  shows "hasVerseBeenPublishedRecently (constantWorld lastVerse [post] now) k v days
      = Inr (scriptureSource post = source v \<and> c = chapter v \<and> n = verse v
          \<and> daysBefore now days \<le> createdAt post)
    \<and> postMatches v cutoffDate post = spec_recordCounts v cutoffDate post"
proof
  have "numberToString c @ ''.'' @ numberToString n
      = numberToString (chapter v) @ ''.'' @ numberToString (verse v)
    \<longleftrightarrow> c = chapter v \<and> n = verse v"
    using reference_text_inj [of c n "chapter v" "verse v"] by auto
  with assms have m: "postMatches v d post
      = (scriptureSource post = source v \<and> c = chapter v \<and> n = verse v \<and> d \<le> createdAt post)" for d
    by (auto simp add: postMatches_def)
  then show "hasVerseBeenPublishedRecently (constantWorld lastVerse [post] now) k v days
      = Inr (scriptureSource post = source v \<and> c = chapter v \<and> n = verse v
          \<and> daysBefore now days \<le> createdAt post)"
    by (simp add: constantWorld_check_days)
  from assms have "spec_parsedReference (verseReference post) = Some (c, n)"
    by (simp only: spec_parsedReference_two_part)
  with m show "postMatches v cutoffDate post = spec_recordCounts v cutoffDate post"
    by (auto simp add: spec_recordCounts_def)
qed

lemma three_part_text_matches_nothing: "\<not> postMatches v cutoffDate canto_text_post"
proof
  assume "postMatches v cutoffDate canto_text_post"
  then have "''1'' @ CHR ''.'' # ''2.3''
      = numberToString (chapter v) @ CHR ''.'' # numberToString (verse v)"
    by (simp add: postMatches_def canto_text_post_def)
  moreover have "CHR ''.'' \<notin> set ''1''" by simp
  moreover have "CHR ''.'' \<notin> set (numberToString (chapter v))"
    using numberToString_chars by blast
  ultimately have "''2.3'' = numberToString (verse v)"
    using split_at_separator [of "CHR ''.''" "''1''" "numberToString (chapter v)"
        "''2.3''" "numberToString (verse v)"]
    by blast
  then have "CHR ''.'' \<in> set (numberToString (verse v))"
    by (metis list.set_intros(1) list.set_intros(2))
  with numberToString_chars show False by blast
qed

text \<open>
  C3. The claim: a record counts as a recent use of a candidate iff the sources agree, the
  chapter and verse parsed from the record's dot-separated text (first number, last
  number) equal the candidate's, and the timestamp is within the window; in particular a
  stored 1.2.3 matches a candidate with chapter 1 and verse 3. The code misses that case.
  The record 1.2.3 of the Srimad Bhagavatam counts for chapter 1, verse 3 under the rule of
  the claim, and \<^verbatim>\<open>getLastPublishedVerse\<close> reads the same text as chapter 1, verse
  3; but \<^verbatim>\<open>hasVerseBeenPublishedRecently\<close> compares the stored text with
  \<^verbatim>\<open>`${verse.chapter}.${verse.verse}`\<close> and finds the record for no candidate at
  all, whatever the time.
\<close>

theorem hasVerseBeenPublishedRecently_three_part_text:
  "spec_recordCounts \<lparr>source = SrimadBhagavatam, chapter = 1, verse = 3\<rparr> 0 canto_text_post
    \<and> getLastPublishedVerse (Answered (Some canto_text_row) None)
      = Inr (Some \<lparr>source = SrimadBhagavatam, chapter = 1, verse = 3\<rparr>)
    \<and> hasVerseBeenPublishedRecently (constantWorld None [canto_text_post] 0) 0
        \<lparr>source = SrimadBhagavatam, chapter = 1, verse = 3\<rparr> 365 = Inr False
    \<and> hasVerseBeenPublishedRecently (zonedWorld z lastVerse [canto_text_post] now) k v days
      = Inr False"
proof (intro conjI)
  show "spec_recordCounts \<lparr>source = SrimadBhagavatam, chapter = 1, verse = 3\<rparr> 0 canto_text_post"
    by code_simp
  show "getLastPublishedVerse (Answered (Some canto_text_row) None)
      = Inr (Some \<lparr>source = SrimadBhagavatam, chapter = 1, verse = 3\<rparr>)"
    by (simp add: getLastPublishedVerse_def readLastPublishedVerse_def canto_text_row_def)
  show "hasVerseBeenPublishedRecently (constantWorld None [canto_text_post] 0) 0
        \<lparr>source = SrimadBhagavatam, chapter = 1, verse = 3\<rparr> 365 = Inr False"
    by (simp add: constantWorld_check_days three_part_text_matches_nothing)
  show "hasVerseBeenPublishedRecently (zonedWorld z lastVerse [canto_text_post] now) k v days
      = Inr False"
    by (simp add: zonedWorld_check_days three_part_text_matches_nothing)
qed

section \<open>Reads from the collaborator\<close>

text \<open>
  In the example history one candidate is rejected, and the invocation reads the
  collaborator three times: the last published verse, and the whole history once for each
  of the two candidates it checks.
\<close>

theorem getNextVerse_two_reads_counterexample: "\<not> snd (getNextVerse skipWorld) \<le> 2"
  by (simp add: skipWorld_result)

text \<open>
  C4, as the code has it. An invocation of \<^verbatim>\<open>getNextVerse\<close> reads the last
  published reference once and then loads the full history once for every candidate it
  checks: when \<open>n < 1000\<close> candidates are rejected before one is accepted it performs
  \<open>n + 2\<close> reads, with no last published reference it performs a single read, and it
  never performs more than 1001.
\<close>

theorem getNextVerse_read_count:
  assumes "\<forall>i<n. recentIn posts now (candidateAfter lastVerse (Suc i))"
    and "\<not> recentIn posts now (candidateAfter lastVerse (Suc n))"
    and "n < 1000"
  shows "snd (getNextVerse (constantWorld (Some lastVerse) posts now)) = n + 2
    \<and> snd (getNextVerse (constantWorld None posts now)) = 1
    \<and> 1 \<le> snd (getNextVerse w) \<and> snd (getNextVerse w) \<le> 1001"
proof -
  from assms(3) have "n < maxAttempts" by (simp add: maxAttempts_def)
  with assms(1,2) have "snd (getNextVerse (constantWorld (Some lastVerse) posts now)) = n + 2"
    by (simp add: getNextVerse_constant_accept)
  then show ?thesis
    using getNextVerse_read_bounds [of w] by (simp add: getNextVerse_constant_none)
qed

theorem getNextVerse_read_count_witness:
  "recentIn skipPosts 0 (candidateAfter gita_2_13 (Suc 0))
    \<and> \<not> recentIn skipPosts 0 (candidateAfter gita_2_13 (Suc (Suc 0)))
    \<and> snd (getNextVerse (constantWorld (Some gita_2_13) skipPosts 0)) = 3
    \<and> snd (getNextVerse (constantWorld None skipPosts 0)) = 1
    \<and> snd (getNextVerse failedLoadWorld) \<le> 1001"
proof -
  have "\<forall>i<Suc 0. recentIn skipPosts 0 (candidateAfter gita_2_13 (Suc i))"
    using skip_first by simp
  from getNextVerse_read_count [OF this skip_second, of failedLoadWorld] skip_first skip_second
  show ?thesis by simp
qed

section \<open>Looking up a chapter\<close>

text \<open>
  Chapter 19 of the Bhagavad Gita: the lookup evaluates to \<^verbatim>\<open>undefined\<close>, and the
  sequencer, which made it, returns a reference. No error is signalled.
\<close>

theorem versesInChapter_no_error_counterexample:
  "versesInChapter BhagavadGita 19 = None
    \<and> getNextSequentialVerse \<lparr>source = BhagavadGita, chapter = 19, verse = 1\<rparr>
      = \<lparr>source = SrimadBhagavatam, chapter = 1, verse = 1\<rparr>"
  by (simp add: versesInChapter_def getNextSequentialVerse_def gita_lookup)

text \<open>
  C5, as the code has it. The lookup of a chapter's verse count yields
  \<^verbatim>\<open>undefined\<close>, without raising an error, for every source and chapter with the
  chapter outside \<open>[1, chapterCount source]\<close> (18 for the Bhagavad Gita, 19 for the
  modelled Srimad Bhagavatam), and a positive integer for every chapter inside that
  range.
\<close>

theorem versesInChapter_range:
  "(ch < 1 \<or> chapterCount s < ch \<longrightarrow> versesInChapter s ch = None)
    \<and> (1 \<le> ch \<and> ch \<le> chapterCount s \<longrightarrow> (\<exists>n. versesInChapter s ch = Some n \<and> 0 < n))"
proof (cases s)
  case BhagavadGita
  have "1 \<le> ch \<Longrightarrow> ch \<le> 18 \<Longrightarrow> \<exists>n. map_of BHAGAVAD_GITA_STRUCTURE ch = Some n \<and> 0 < n"
    using gita_in_range [of ch] by force
  with BhagavadGita show ?thesis
    by (auto simp add: versesInChapter_def chapterCount_def gita_out_of_range)
next
  case SrimadBhagavatam
  have "1 \<le> ch \<Longrightarrow> ch \<le> 19 \<Longrightarrow> \<exists>n. bhagavatamVerses 1 ch = Some n \<and> 0 < n"
    using bhagavatam_in_range [of ch] by force
  with SrimadBhagavatam show ?thesis
    by (auto simp add: versesInChapter_def chapterCount_def bhagavatam_out_of_range)
qed

theorem versesInChapter_range_witness:
  "chapterCount SrimadBhagavatam < 20 \<and> versesInChapter SrimadBhagavatam 20 = None
    \<and> 1 \<le> (7::int) \<and> 7 \<le> chapterCount SrimadBhagavatam
    \<and> versesInChapter SrimadBhagavatam 7 = Some 58"
proof -
  have a: "chapterCount SrimadBhagavatam < 20" and b: "1 \<le> (7::int) \<and> 7 \<le> chapterCount SrimadBhagavatam"
    by (simp_all add: chapterCount_def)
  from versesInChapter_range [of 20 SrimadBhagavatam] a
  have "versesInChapter SrimadBhagavatam 20 = None" by blast
  moreover from versesInChapter_range [of 7 SrimadBhagavatam] b
  obtain n where "versesInChapter SrimadBhagavatam 7 = Some n" by blast
  moreover have "versesInChapter SrimadBhagavatam 7 = Some 58"
    by (simp add: versesInChapter_def bhagavatam_lookup)
  ultimately show ?thesis using a b by simp
qed

section \<open>Errors of the collaborator\<close>

text \<open>
  The request for the newest post cannot be sent and the client throws a
  \<^verbatim>\<open>TypeError\<close> with the message \<^verbatim>\<open>fetch failed\<close>: the read of the history has
  failed, \<^verbatim>\<open>getLastPublishedVerse\<close> answers \<^verbatim>\<open>null\<close>, and
  \<^verbatim>\<open>getNextVerse\<close> selects Bhagavad Gita 1.1.
\<close>

theorem getNextVerse_fetch_failed_counterexample:
  "lastPostQuery fetchFailedWorld = Threw (TypeError ''fetch failed'')
    \<and> getNextVerse fetchFailedWorld
      = (Inr \<lparr>source = BhagavadGita, chapter = 1, verse = 1\<rparr>, 1)"
  by code_simp

text \<open>
  C6, as the code has it. For every failure of a read of the history other than a
  \<^verbatim>\<open>TypeError\<close> whose message includes \<^verbatim>\<open>fetch failed\<close> thrown while the last
  published reference is read, \<^verbatim>\<open>getNextVerse\<close> fails with the error the collaborator
  raises for it, unchanged. An error raised by \<^verbatim>\<open>getLastPublishedVerse\<close> ends the
  invocation after that one read: it raises the value thrown inside it, and an error naming
  the message of the query's error (the code PGRST116 apart, which is the answer of an
  empty history). An error raised by any load of the history that the invocation makes ends
  it at that load. There is no later read, so no retry, and never a selected verse.
\<close>

theorem getNextVerse_propagates_upstream:
  "(lastPublishedVerse w = Inl e \<longrightarrow> getNextVerse w = (Inl (Upstream e), 1))
    \<and> (k + 1 < snd (getNextVerse w) \<and> allPosts w k = Inl e \<longrightarrow>
         fst (getNextVerse w) = Inl (Upstream e) \<and> snd (getNextVerse w) = k + 2)
    \<and> (lastPostQuery w = Threw x \<and> \<not> isFetchFailure x \<longrightarrow>
         getNextVerse w = (Inl (Upstream x), 1))
    \<and> (lastPostQuery w = Answered d (Some pe) \<and> code pe \<noteq> ''PGRST116'' \<longrightarrow>
         getNextVerse w
           = (Inl (Upstream (OtherError (''Failed to get last published verse: '' @ message pe))),
              1))"
proof -
  have first: "getNextVerse w = (Inl (Upstream e), 1)" if "lastPublishedVerse w = Inl e" for e
    using that by (simp add: getNextVerse_def)
  have later: "fst (getNextVerse w) = Inl (Upstream e) \<and> snd (getNextVerse w) = k + 2"
    if a: "k + 1 < snd (getNextVerse w) \<and> allPosts w k = Inl e"
  proof (cases "lastPublishedVerse w")
    case (Inl e')
    with a show ?thesis by (simp add: getNextVerse_def)
  next
    case (Inr last)
    show ?thesis
    proof (cases last)
      case None
      with Inr a show ?thesis by (simp add: getNextVerse_def)
    next
      case (Some l)
      obtain res n where loop: "recencyLoop w (getNextSequentialVerse l) 0 0 = (res, n)"
        by (cases "recencyLoop w (getNextSequentialVerse l) 0 0")
      with Inr Some have r: "getNextVerse w = (res, 1 + n)" by (simp add: getNextVerse_def)
      with a have "k < n" by simp
      with loop_upstream [OF loop, of k e] a have "res = Inl (Upstream e) \<and> n = k + 1" by simp
      with r show ?thesis by simp
    qed
  qed
  have thrown: "getNextVerse w = (Inl (Upstream x), 1)"
    if "lastPostQuery w = Threw x \<and> \<not> isFetchFailure x"
  proof -
    from that have "lastPublishedVerse w = Inl x"
      by (simp add: lastPublishedVerse_def getLastPublishedVerse_def readLastPublishedVerse_def)
    then show ?thesis by (rule first)
  qed
  have answered: "getNextVerse w
      = (Inl (Upstream (OtherError (''Failed to get last published verse: '' @ message pe))), 1)"
    if "lastPostQuery w = Answered d (Some pe) \<and> code pe \<noteq> ''PGRST116''"
  proof -
    from that have "lastPublishedVerse w
        = Inl (OtherError (''Failed to get last published verse: '' @ message pe))"
      by (simp add: lastPublishedVerse_def getLastPublishedVerse_def readLastPublishedVerse_def
          isFetchFailure_def)
    then show ?thesis by (rule first)
  qed
  from first [of e] later thrown answered show ?thesis by blast
qed

theorem getNextVerse_propagates_upstream_witness:
  "lastPublishedVerse failedLastWorld
      = Inl (OtherError ''Failed to get last published verse: timeout'')
    \<and> getNextVerse failedLastWorld
      = (Inl (Upstream (OtherError ''Failed to get last published verse: timeout'')), 1)
    \<and> 1 + 1 < snd (getNextVerse failedLoadWorld)
    \<and> allPosts failedLoadWorld 1 = Inl (OtherError ''Failed to get all posts: timeout'')
    \<and> fst (getNextVerse failedLoadWorld)
      = Inl (Upstream (OtherError ''Failed to get all posts: timeout''))
    \<and> snd (getNextVerse failedLoadWorld) = 1 + 2
    \<and> lastPostQuery missingEnvironmentWorld
      = Threw (OtherError ''Missing Supabase environment variables.'')
    \<and> \<not> isFetchFailure (OtherError ''Missing Supabase environment variables.'')
    \<and> getNextVerse missingEnvironmentWorld
      = (Inl (Upstream (OtherError ''Missing Supabase environment variables.'')), 1)"
proof -
  let ?last = "OtherError ''Failed to get last published verse: timeout''"
  let ?load = "OtherError ''Failed to get all posts: timeout''"
  let ?env = "OtherError ''Missing Supabase environment variables.''"
  have a: "lastPublishedVerse failedLastWorld = Inl ?last"
    by (simp add: failedLastWorld_def lastPublishedVerse_def getLastPublishedVerse_def
        readLastPublishedVerse_def isFetchFailure_def)
  have b: "1 + 1 < snd (getNextVerse failedLoadWorld) \<and> allPosts failedLoadWorld 1 = Inl ?load"
    by (simp add: failedLoadWorld_result) (simp add: failedLoadWorld_def)
  have c: "lastPostQuery missingEnvironmentWorld = Threw ?env \<and> \<not> isFetchFailure ?env"
    by (simp add: missingEnvironmentWorld_def isFetchFailure_def)
  from getNextVerse_propagates_upstream [of failedLastWorld ?last 0] a
  have "getNextVerse failedLastWorld = (Inl (Upstream ?last), 1)"
    by blast
  moreover from getNextVerse_propagates_upstream [of failedLoadWorld ?load 1] b
  have "fst (getNextVerse failedLoadWorld) = Inl (Upstream ?load)
      \<and> snd (getNextVerse failedLoadWorld) = 1 + 2"
    by blast
  moreover from getNextVerse_propagates_upstream [of missingEnvironmentWorld _ _ ?env] c
  have "getNextVerse missingEnvironmentWorld = (Inl (Upstream ?env), 1)"
    by blast
  ultimately show ?thesis using a b c by blast
qed

section \<open>Exhaustion\<close>

text \<open>
  A history in which exactly the first 1000 references after Bhagavad Gita 2.13 were
  published within the window, and the 1001st was not: 1000 successive candidates are
  rejected, not more, and the selector fails.
\<close>

theorem getNextVerse_exhausted_counterexample:
  "fst (getNextVerse (blockedWorld gita_2_13 1000)) = Inl UnableToFindVerse
    \<and> \<not> recentIn (blockedPosts gita_2_13 1000) 0 (candidateAfter gita_2_13 1001)"
proof
  show "fst (getNextVerse (blockedWorld gita_2_13 1000)) = Inl UnableToFindVerse"
    by (simp add: blockedWorld_exhausted)
  show "\<not> recentIn (blockedPosts gita_2_13 1000) 0 (candidateAfter gita_2_13 1001)"
    by (rule blocked_outside [OF valid_gita_2_13]) simp_all
qed

text \<open>
  C7, as the code has it. On a history that does not change during the invocation,
  \<^verbatim>\<open>getNextVerse\<close> fails with its own error exactly when the attempt counter
  reaches the bound of 1000, that is iff the first 1000 successive candidates are all
  rejected as recently published; otherwise it returns the first candidate that is
  accepted.
\<close>

theorem getNextVerse_exhausted_iff:
  "(fst (getNextVerse (constantWorld (Some lastVerse) posts now)) = Inl UnableToFindVerse)
      = (\<forall>i<1000. recentIn posts now (candidateAfter lastVerse (Suc i)))
    \<and> (n < 1000 \<and> (\<forall>i<n. recentIn posts now (candidateAfter lastVerse (Suc i)))
         \<and> \<not> recentIn posts now (candidateAfter lastVerse (Suc n))
       \<longrightarrow> fst (getNextVerse (constantWorld (Some lastVerse) posts now))
             = Inr (candidateAfter lastVerse (Suc n)))"
proof (intro conjI impI)
  let ?w = "constantWorld (Some lastVerse) posts now"
  let ?P = "\<lambda>i. recentIn posts now (candidateAfter lastVerse (Suc i))"
  show "(fst (getNextVerse ?w) = Inl UnableToFindVerse) = (\<forall>i<1000. ?P i)"
  proof
    assume all: "\<forall>i<1000. ?P i"
    then show "fst (getNextVerse ?w) = Inl UnableToFindVerse"
      using getNextVerse_constant_exhaust [of posts now lastVerse] by (simp add: maxAttempts_def)
  next
    assume err: "fst (getNextVerse ?w) = Inl UnableToFindVerse"
    show "\<forall>i<1000. ?P i"
    proof (rule ccontr)
      assume "\<not> (\<forall>i<1000. ?P i)"
      then obtain m where m: "m < 1000" "\<not> ?P m" "\<forall>i<m. ?P i"
        using first_rejected [of 1000 ?P] by blast
      then have "fst (getNextVerse ?w) = Inr (candidateAfter lastVerse (Suc m))"
        using getNextVerse_constant_accept [of m posts now lastVerse] by (simp add: maxAttempts_def)
      with err show False by simp
    qed
  qed
next
  let ?w = "constantWorld (Some lastVerse) posts now"
  assume "n < 1000 \<and> (\<forall>i<n. recentIn posts now (candidateAfter lastVerse (Suc i)))
         \<and> \<not> recentIn posts now (candidateAfter lastVerse (Suc n))"
  then show "fst (getNextVerse ?w) = Inr (candidateAfter lastVerse (Suc n))"
    using getNextVerse_constant_accept [of n posts now lastVerse] by (simp add: maxAttempts_def)
qed

theorem getNextVerse_exhausted_iff_witness:
  "recentIn skipPosts 0 (candidateAfter gita_2_13 (Suc 0))
    \<and> \<not> recentIn skipPosts 0 (candidateAfter gita_2_13 (Suc (Suc 0)))
    \<and> fst (getNextVerse (constantWorld (Some gita_2_13) skipPosts 0))
        = Inr (candidateAfter gita_2_13 (Suc (Suc 0)))
    \<and> fst (getNextVerse (constantWorld (Some gita_2_13) skipPosts 0)) \<noteq> Inl UnableToFindVerse"
proof -
  have h: "Suc 0 < 1000 \<and> (\<forall>i<Suc 0. recentIn skipPosts 0 (candidateAfter gita_2_13 (Suc i)))
      \<and> \<not> recentIn skipPosts 0 (candidateAfter gita_2_13 (Suc (Suc 0)))"
    using skip_first skip_second by simp
  from getNextVerse_exhausted_iff [of gita_2_13 skipPosts 0 "Suc 0"] h
  have "fst (getNextVerse (constantWorld (Some gita_2_13) skipPosts 0))
      = Inr (candidateAfter gita_2_13 (Suc (Suc 0)))"
    by blast
  then show ?thesis using skip_first skip_second by simp
qed

section \<open>The boundary of the window\<close>

text \<open>
  Noon in New York on 10 March 2024, the day the clock was set forward. The cutoff of the
  code is noon on 11 March 2023, when New York was still on winter time: 364 days and 23
  hours before now. A record of the candidate that is exactly 365 times 24 hours old is
  older than the cutoff and does not count as recently published.
\<close>

theorem recency_window_new_york_counterexample:
  "cutoffDateOf newYork march_10_2024 365 = march_10_2024 - 365 * 86400000 + 3600000
    \<and> hasVerseBeenPublishedRecently
        (zonedWorld newYork None [gita_2_14_at (march_10_2024 - 365 * 86400000)] march_10_2024)
        0 \<lparr>source = BhagavadGita, chapter = 2, verse = 14\<rparr> 365
      = Inr False"
  by code_simp

text \<open>
  C8, as the code has it. The boundary of the recency window is inclusive on the old
  side: a record of the candidate whose timestamp is the cutoff counts as recently
  published and the selector does not return the candidate, while an older record does not
  count. The cutoff is the instant that has the local time of day of now on the calendar
  day 365 days before; where local time has the same offset from UTC at the cutoff as at
  now (always, in a zone whose clock never changes) that is exactly 365 times 24 hours
  before now. In every zone (offsets from UTC of at most 14 hours) a record that is exactly
  400 times 24 hours old does not block the selection of its reference.
\<close>

theorem recency_window_boundary:
  assumes "verseReference p = numberToString (chapter v) @ ''.'' @ numberToString (verse v)"
    and "scriptureSource p = source v"
  shows "(p \<in> set posts \<and> createdAt p = cutoffDateOf z now 365 \<longrightarrow>
          hasVerseBeenPublishedRecently (zonedWorld z lastVerse posts now) k v 365 = Inr True
          \<and> fst (getNextVerse (zonedWorld z (Some l) posts now)) \<noteq> Inr v)
    \<and> (createdAt p < cutoffDateOf z now 365 \<longrightarrow>
          hasVerseBeenPublishedRecently (zonedWorld z lastVerse [p] now) k v 365 = Inr False)
    \<and> (offsetAtLocal z (now + offsetAtUTC z now - 365 * 86400000) = offsetAtUTC z now \<longrightarrow>
          cutoffDateOf z now 365 = now - 365 * 86400000)
    \<and> ((\<forall>t. \<bar>offsetAtUTC z t\<bar> \<le> 50400000 \<and> \<bar>offsetAtLocal z t\<bar> \<le> 50400000)
        \<and> createdAt p = now - 400 * 86400000 \<and> getNextSequentialVerse l = v \<longrightarrow>
          hasVerseBeenPublishedRecently (zonedWorld z lastVerse [p] now) k v 365 = Inr False
          \<and> fst (getNextVerse (zonedWorld z (Some l) [p] now)) = Inr v)"
proof -
  from assms have m: "postMatches v d p = (d \<le> createdAt p)" for d
    by (simp add: postMatches_def)
  have 1: "hasVerseBeenPublishedRecently (zonedWorld z lastVerse posts now) k v 365 = Inr True
      \<and> fst (getNextVerse (zonedWorld z (Some l) posts now)) \<noteq> Inr v"
    if a: "p \<in> set posts \<and> createdAt p = cutoffDateOf z now 365"
  proof
    from a m [of "cutoffDateOf z now 365"]
    have r: "hasVerseBeenPublishedRecently (zonedWorld z lastVerse posts now) k v 365 = Inr True"
      for lastVerse k
      by (auto simp add: zonedWorld_check_days)
    then show "hasVerseBeenPublishedRecently (zonedWorld z lastVerse posts now) k v 365 = Inr True" .
    from r [of None 0] have "recentAt z posts now v" by (simp add: recentAt_def)
    then show "fst (getNextVerse (zonedWorld z (Some l) posts now)) \<noteq> Inr v"
      using getNextVerse_zoned_result [of z l posts now v] by blast
  qed
  have 2: "hasVerseBeenPublishedRecently (zonedWorld z lastVerse [p] now) k v 365 = Inr False"
    if "createdAt p < cutoffDateOf z now 365" for lastVerse k
    using that by (simp add: zonedWorld_check_days m)
  have 3: "cutoffDateOf z now 365 = now - 365 * 86400000"
    if "offsetAtLocal z (now + offsetAtUTC z now - 365 * 86400000) = offsetAtUTC z now"
    using that by (simp add: cutoffDateOf_def msPerDay_def Let_def)
  have 4: "hasVerseBeenPublishedRecently (zonedWorld z lastVerse [p] now) k v 365 = Inr False
      \<and> fst (getNextVerse (zonedWorld z (Some l) [p] now)) = Inr v"
    if b: "(\<forall>t. \<bar>offsetAtUTC z t\<bar> \<le> 50400000 \<and> \<bar>offsetAtLocal z t\<bar> \<le> 50400000)
        \<and> createdAt p = now - 400 * 86400000 \<and> getNextSequentialVerse l = v"
  proof
    from b have "\<bar>offsetAtUTC z now\<bar> \<le> 50400000"
      and "\<bar>offsetAtLocal z (now + offsetAtUTC z now - 365 * 86400000)\<bar> \<le> 50400000"
      by blast+
    then have "now - 400 * 86400000 < cutoffDateOf z now 365"
      by (simp add: cutoffDateOf_def msPerDay_def Let_def)
    with b have older: "createdAt p < cutoffDateOf z now 365" by simp
    from 2 [OF older]
    show "hasVerseBeenPublishedRecently (zonedWorld z lastVerse [p] now) k v 365 = Inr False" .
    from 2 [OF older, of None 0] have "\<not> recentAt z [p] now v" by (simp add: recentAt_def)
    with b have "\<not> recentAt z [p] now (candidateAfter l (Suc 0))"
      by (simp add: candidateAfter_def)
    then show "fst (getNextVerse (zonedWorld z (Some l) [p] now)) = Inr v"
      using getNextVerse_zoned_accept [of 0 z "[p]" now l] b
      by (simp add: maxAttempts_def candidateAfter_def)
  qed
  from 1 2 3 4 show ?thesis by blast
qed

theorem recency_window_boundary_witness:
  "hasVerseBeenPublishedRecently (zonedWorld utc None [gita_2_14_at (0 - 365 * 86400000)] 0) 0
      \<lparr>source = BhagavadGita, chapter = 2, verse = 14\<rparr> 365 = Inr True
    \<and> fst (getNextVerse (zonedWorld utc (Some gita_2_13) [gita_2_14_at (0 - 365 * 86400000)] 0))
      \<noteq> Inr \<lparr>source = BhagavadGita, chapter = 2, verse = 14\<rparr>
    \<and> hasVerseBeenPublishedRecently
        (zonedWorld utc None [gita_2_14_at (0 - 365 * 86400000 - 1)] 0) 0
        \<lparr>source = BhagavadGita, chapter = 2, verse = 14\<rparr> 365 = Inr False
    \<and> hasVerseBeenPublishedRecently
        (zonedWorld newYork None [gita_2_14_at (march_10_2024 - 400 * 86400000)] march_10_2024) 0
        \<lparr>source = BhagavadGita, chapter = 2, verse = 14\<rparr> 365 = Inr False
    \<and> fst (getNextVerse
        (zonedWorld newYork (Some gita_2_13) [gita_2_14_at (march_10_2024 - 400 * 86400000)]
          march_10_2024))
      = Inr \<lparr>source = BhagavadGita, chapter = 2, verse = 14\<rparr>"
proof -
  let ?v = "\<lparr>source = BhagavadGita, chapter = 2, verse = 14\<rparr>"
  have ref: "verseReference (gita_2_14_at t)
      = numberToString (chapter ?v) @ ''.'' @ numberToString (verse ?v)" for t
    unfolding gita_2_14_at_def by code_simp
  have src: "scriptureSource (gita_2_14_at t) = source ?v" for t
    by (simp add: gita_2_14_at_def)
  have step: "getNextSequentialVerse gita_2_13 = ?v"
    by (simp add: getNextSequentialVerse_def gita_2_13_def gita_lookup)
  have at: "createdAt (gita_2_14_at t) = t" for t
    by (simp add: gita_2_14_at_def)
  have same: "offsetAtLocal utc (0 + offsetAtUTC utc 0 - 365 * 86400000) = offsetAtUTC utc 0"
    by (simp add: utc_def)
  have bounds: "\<forall>t. \<bar>offsetAtUTC newYork t\<bar> \<le> 50400000 \<and> \<bar>offsetAtLocal newYork t\<bar> \<le> 50400000"
    by (simp add: newYork_def)
  note exact = recency_window_boundary
    [OF ref src, of "0 - 365 * 86400000" "[gita_2_14_at (0 - 365 * 86400000)]" utc 0 None 0 gita_2_13]
  from exact same have cutoff: "cutoffDateOf utc 0 365 = 0 - 365 * 86400000" by simp
  with exact
  have "hasVerseBeenPublishedRecently (zonedWorld utc None [gita_2_14_at (0 - 365 * 86400000)] 0) 0
        ?v 365 = Inr True
      \<and> fst (getNextVerse (zonedWorld utc (Some gita_2_13) [gita_2_14_at (0 - 365 * 86400000)] 0))
        \<noteq> Inr ?v"
    by (simp add: at)
  moreover from recency_window_boundary
    [OF ref src, of "0 - 365 * 86400000 - 1" "[]" utc 0 None 0 gita_2_13] cutoff
  have "hasVerseBeenPublishedRecently
        (zonedWorld utc None [gita_2_14_at (0 - 365 * 86400000 - 1)] 0) 0 ?v 365 = Inr False"
    by (simp add: at)
  moreover from recency_window_boundary
    [OF ref src, of "march_10_2024 - 400 * 86400000" "[]" newYork march_10_2024 None 0 gita_2_13]
    bounds step
  have "hasVerseBeenPublishedRecently
        (zonedWorld newYork None [gita_2_14_at (march_10_2024 - 400 * 86400000)] march_10_2024) 0
        ?v 365 = Inr False
      \<and> fst (getNextVerse
          (zonedWorld newYork (Some gita_2_13) [gita_2_14_at (march_10_2024 - 400 * 86400000)]
            march_10_2024))
        = Inr ?v"
    by (simp add: at)
  ultimately show ?thesis by simp
qed

section \<open>Selected references belong to the canon\<close>

text \<open>
  C9. For every last published reference that is absent or a valid reference of the
  canon, and every history (whatever the collaborator answers), whenever
  \<^verbatim>\<open>getNextVerse\<close> returns a reference, that reference is valid: its chapter is
  between 1 and the chapter count of its source, and its verse between 1 and the number of
  verses of that chapter.
\<close>

theorem getNextVerse_returns_canon_reference:
  assumes "\<forall>l. lastPublishedVerse w = Inr (Some l) \<longrightarrow> valid l"
    and "fst (getNextVerse w) = Inr x"
  shows "valid x"
proof (cases "lastPublishedVerse w")
  case (Inl e)
  with assms(2) show ?thesis by (simp add: getNextVerse_def)
next
  case (Inr last)
  show ?thesis
  proof (cases last)
    case None
    with Inr assms(2) have "x = \<lparr>source = BhagavadGita, chapter = 1, verse = 1\<rparr>"
      by (simp add: getNextVerse_def)
    then show ?thesis using valid_gita_1_1 by (simp add: gita_1_1_def)
  next
    case (Some l)
    with Inr assms(1) have "valid l" by simp
    then have v: "valid (getNextSequentialVerse l)" using valid_step by blast
    obtain res n where loop: "recencyLoop w (getNextSequentialVerse l) 0 0 = (res, n)"
      by (cases "recencyLoop w (getNextSequentialVerse l) 0 0")
    with Inr Some assms(2) have "res = Inr x" by (simp add: getNextVerse_def)
    with loop loop_valid [OF v] show ?thesis by blast
  qed
qed

theorem getNextVerse_returns_canon_reference_witness:
  "valid gita_2_13
    \<and> fst (getNextVerse skipWorld) = Inr \<lparr>source = BhagavadGita, chapter = 2, verse = 15\<rparr>
    \<and> valid \<lparr>source = BhagavadGita, chapter = 2, verse = 15\<rparr>"
proof -
  have a: "\<forall>l. lastPublishedVerse skipWorld = Inr (Some l) \<longrightarrow> valid l"
    using valid_gita_2_13 by (simp add: skipWorld_def lastPublishedVerse_constantWorld)
  have b: "fst (getNextVerse skipWorld) = Inr \<lparr>source = BhagavadGita, chapter = 2, verse = 15\<rparr>"
    by (simp add: skipWorld_result)
  from getNextVerse_returns_canon_reference [OF a b] valid_gita_2_13 b show ?thesis by simp
qed

section \<open>Out-of-range chapters\<close>

text \<open>
  C10. \<^verbatim>\<open>getNextSequentialVerse\<close> has no failing branch (the model is a total
  function into \<open>VerseReference\<close>, as the source has no \<^verbatim>\<open>throw\<close>), and for a
  reference whose chapter is above the chapter count of its scripture (18 for the Bhagavad
  Gita, 19 for the Srimad Bhagavatam) and any verse it returns chapter 1, verse 1 of the
  other scripture.
\<close>

theorem getNextSequentialVerse_chapter_above:
  assumes "chapterCount (source r) < chapter r"
  shows "getNextSequentialVerse r = \<lparr>source = otherSource (source r), chapter = 1, verse = 1\<rparr>"
proof (cases "source r")
  case BhagavadGita
  with assms have above: "18 < chapter r" by (simp add: chapterCount_def)
  then have "map_of BHAGAVAD_GITA_STRUCTURE (chapter r) = None"
    by (simp add: gita_out_of_range)
  with above BhagavadGita show ?thesis
    by (simp add: getNextSequentialVerse_def otherSource_def)
next
  case SrimadBhagavatam
  with assms have above: "19 < chapter r" by (simp add: chapterCount_def)
  then have "bhagavatamVerses 1 (chapter r) = None"
    by (simp add: bhagavatam_out_of_range)
  with above SrimadBhagavatam show ?thesis
    by (simp add: getNextSequentialVerse_def otherSource_def)
qed

theorem getNextSequentialVerse_chapter_above_witness:
  "chapterCount (source \<lparr>source = BhagavadGita, chapter = 19, verse = 5\<rparr>)
     < chapter \<lparr>source = BhagavadGita, chapter = 19, verse = 5\<rparr>
   \<and> getNextSequentialVerse \<lparr>source = BhagavadGita, chapter = 19, verse = 5\<rparr>
     = \<lparr>source = SrimadBhagavatam, chapter = 1, verse = 1\<rparr>"
  using getNextSequentialVerse_chapter_above [of "\<lparr>source = BhagavadGita, chapter = 19, verse = 5\<rparr>"]
  by (simp add: chapterCount_def otherSource_def)

end
